(* ===== verification/Prelude.thy ===== *)
theory Prelude
  imports Main "HOL-Library.AList" "HOL-Library.Multiset" "HOL-Library.Word"
begin

text \<open>
  What the components share: the machine types, Rust's \<open>Result\<close> as a sum, the outcome of
  running an asynchronous body (it returns, it panics, or it waits for ever), and
  \<open>std::collections::HashMap\<close>.

  A \<open>HashMap\<close> is an association list with distinct keys; the list order stands for the
  iteration order of the map, which Rust leaves open. Every statement about a map is up to
  \<open>hm_get\<close> or quantifies over the list, so it holds for every iteration order. The locale
  \<open>hash_map\<close> is the contract of the map operations; the components use its facts through
  the interpretation \<open>hm\<close>.
\<close>

section \<open>Machine types and results\<close>

type_synonym u64 = "64 word"
type_synonym byte = "8 word"
type_synonym bytes = "byte list"

text \<open>A \<open>tokio::sync::oneshot\<close> channel is named by a number.\<close>

type_synonym chan = nat

text \<open>\<open>Result<T, E>\<close> is \<open>'e + 'a\<close>: \<open>Inl\<close> is \<open>Err\<close>, \<open>Inr\<close> is \<open>Ok\<close>.\<close>

definition is_ok :: "'e + 'a \<Rightarrow> bool" where
  "is_ok r = (case r of Inl _ \<Rightarrow> False | Inr _ \<Rightarrow> True)"

lemma is_ok_simps [simp]: "is_ok (Inr a)" "\<not> is_ok (Inl e)"
  by (simp_all add: is_ok_def)

lemma is_ok_iff: "is_ok r \<longleftrightarrow> (\<exists>a. r = Inr a)"
  by (cases r) auto

text \<open>The operator \<open>?\<close>.\<close>

fun and_then :: "'e + 'a \<Rightarrow> ('a \<Rightarrow> 'e + 'b) \<Rightarrow> 'e + 'b" where
  "and_then (Inl e) f = Inl e"
| "and_then (Inr a) f = f a"

lemma and_then_Inr: "and_then r f = Inr b \<longleftrightarrow> (\<exists>a. r = Inr a \<and> f a = Inr b)"
  by (cases r) auto

lemma distinct_concat_unique:
  "distinct (concat (map f xs)) \<Longrightarrow> x \<in> set xs \<Longrightarrow> y \<in> set xs \<Longrightarrow> k \<in> set (f x) \<Longrightarrow> k \<in> set (f y) \<Longrightarrow> x = y"
  by (induction xs) auto

lemma map_filter_append: "List.map_filter f (xs @ ys) = List.map_filter f xs @ List.map_filter f ys"
  by (simp add: map_filter_def)

text \<open>How an asynchronous body ends: with a value, with a panic, or never, because a future
  it awaits is never resolved.\<close>

datatype 'a outcome = Done 'a | Panicked | Blocked

fun bind_outcome :: "'a outcome \<Rightarrow> ('a \<Rightarrow> 'b outcome) \<Rightarrow> 'b outcome" where
  "bind_outcome (Done a) f = f a"
| "bind_outcome Panicked f = Panicked"
| "bind_outcome Blocked f = Blocked"

lemma bind_outcome_Done:
  "bind_outcome r f = Done b \<longleftrightarrow> (\<exists>a. r = Done a \<and> f a = Done b)"
  by (cases r) auto

text \<open>\<open>Option::unwrap\<close> and \<open>Result::unwrap\<close>.\<close>

definition unwrap :: "'a option \<Rightarrow> 'a outcome" where
  "unwrap x = (case x of None \<Rightarrow> Panicked | Some a \<Rightarrow> Done a)"

definition unwrap_result :: "'e + 'a \<Rightarrow> 'a outcome" where
  "unwrap_result r = (case r of Inl _ \<Rightarrow> Panicked | Inr a \<Rightarrow> Done a)"

lemma unwrap_simps [simp]:
  "unwrap None = Panicked" "unwrap (Some a) = Done a"
  "unwrap_result (Inl e) = Panicked" "unwrap_result (Inr a) = Done a"
  by (simp_all add: unwrap_def unwrap_result_def)

lemma unwrap_eq_Done [simp]:
  "unwrap x = Done a \<longleftrightarrow> x = Some a"
  "unwrap_result r = Done a \<longleftrightarrow> r = Inr a"
  by (simp_all add: unwrap_def unwrap_result_def split: option.split sum.split)

text \<open>A body that calls other components while it runs: the calls it makes, in order, and how it
  ends. What was called before a panic or an endless wait stays called.\<close>

type_synonym ('o, 'a) traced = "'o list \<times> 'a outcome"

fun trace_bind :: "('o, 'a) traced \<Rightarrow> ('a \<Rightarrow> ('o, 'b) traced) \<Rightarrow> ('o, 'b) traced" where
  "trace_bind (os, Done a) f = (let (os', r) = f a in (os @ os', r))"
| "trace_bind (os, Panicked) f = (os, Panicked)"
| "trace_bind (os, Blocked) f = (os, Blocked)"

definition untraced :: "'a outcome \<Rightarrow> ('o, 'a) traced" where
  "untraced r = ([], r)"

definition emit :: "'o \<Rightarrow> 'a outcome \<Rightarrow> ('o, 'a) traced" where
  "emit x r = ([x], r)"

lemma fst_untraced [simp]: "fst (untraced r) = []" and snd_untraced [simp]: "snd (untraced r) = r"
  by (simp_all add: untraced_def)

lemma trace_bind_untraced [simp]:
  "trace_bind (untraced (Done a)) f = f a"
  "trace_bind (untraced Panicked) f = ([], Panicked)"
  "trace_bind (untraced Blocked) f = ([], Blocked)"
  by (simp_all add: untraced_def)

lemma trace_bind_emit [simp]:
  "trace_bind (emit x (Done a)) f = (x # fst (f a), snd (f a))"
  "trace_bind (emit x Panicked) f = ([x], Panicked)"
  "trace_bind (emit x Blocked) f = ([x], Blocked)"
  by (simp_all add: emit_def split_beta)

lemma trace_bind_last [simp]:
  "trace_bind (emit x r) (\<lambda>a. untraced (g a)) = ([x], bind_outcome r g)"
  by (cases r) (simp_all add: untraced_def)

lemma trace_bind_Done:
  "snd (trace_bind p f) = Done b \<longleftrightarrow> (\<exists>a. snd p = Done a \<and> snd (f a) = Done b)"
  by (cases p; cases "snd p") (auto simp: split_beta)

section \<open>Hash maps\<close>

type_synonym ('k, 'v) hashmap = "('k \<times> 'v) list"

definition hm_get :: "('k, 'v) hashmap \<Rightarrow> 'k \<Rightarrow> 'v option" where
  "hm_get m k = map_of m k"

definition hm_insert :: "'k \<Rightarrow> 'v \<Rightarrow> ('k, 'v) hashmap \<Rightarrow> ('k, 'v) hashmap" where
  "hm_insert k v m = AList.update k v m"

definition hm_remove :: "'k \<Rightarrow> ('k, 'v) hashmap \<Rightarrow> ('k, 'v) hashmap" where
  "hm_remove k m = AList.delete k m"

definition hm_keys :: "('k, 'v) hashmap \<Rightarrow> 'k list" where
  "hm_keys m = map fst m"

definition hm_values :: "('k, 'v) hashmap \<Rightarrow> 'v multiset" where
  "hm_values m = mset (map snd m)"

definition hm_wf :: "('k, 'v) hashmap \<Rightarrow> bool" where
  "hm_wf m = distinct (map fst m)"

text \<open>\<open>entry(k).or_insert(v)\<close>: an existing value is kept.\<close>

definition hm_or_insert :: "'k \<Rightarrow> 'v \<Rightarrow> ('k, 'v) hashmap \<Rightarrow> ('k, 'v) hashmap" where
  "hm_or_insert k v m = (case hm_get m k of None \<Rightarrow> hm_insert k v m | Some _ \<Rightarrow> m)"

text \<open>Evaluation rules: the operations compute on concrete lists.\<close>

lemma hm_eval [simp]:
  "hm_get [] k = None"
  "hm_get ((a, b) # m) k = (if a = k then Some b else hm_get m k)"
  "hm_insert k v [] = [(k, v)]"
  "hm_insert k v ((a, b) # m) = (if a = k then (k, v) # m else (a, b) # hm_insert k v m)"
  "hm_remove k [] = []"
  "hm_remove k ((a, b) # m) = (if a = k then hm_remove k m else (a, b) # hm_remove k m)"
  "hm_keys [] = []"
  "hm_keys ((a, b) # m) = a # hm_keys m"
  "hm_values [] = {#}"
  "hm_values ((a, b) # m) = add_mset b (hm_values m)"
  by (simp_all add: hm_get_def hm_insert_def hm_remove_def hm_keys_def hm_values_def)

lemma hm_get_Nil [simp]: "hm_get [] = Map.empty"
  by (rule ext) simp

lemma hm_get_insert: "hm_get (hm_insert k v m) k' = (if k' = k then Some v else hm_get m k')"
  by (simp add: hm_get_def hm_insert_def update_conv')

lemma hm_get_remove: "hm_get (hm_remove k m) k' = (if k' = k then None else hm_get m k')"
  by (simp add: hm_get_def hm_remove_def delete_conv')

lemma hm_keys_get: "k \<in> set (hm_keys m) \<longleftrightarrow> hm_get m k \<noteq> None"
  by (simp add: hm_keys_def hm_get_def map_of_eq_None_iff)

lemma hm_wf_insert: "hm_wf m \<Longrightarrow> hm_wf (hm_insert k v m)"
  by (simp add: hm_wf_def hm_insert_def distinct_update)

lemma hm_wf_remove: "hm_wf m \<Longrightarrow> hm_wf (hm_remove k m)"
  by (simp add: hm_wf_def hm_remove_def distinct_delete)

lemma hm_wf_simps [simp]: "hm_wf []" "hm_wf [(k, v)]"
  by (simp_all add: hm_wf_def)

lemma hm_values_insert:
  "hm_values (hm_insert k v m) + (case hm_get m k of None \<Rightarrow> {#} | Some w \<Rightarrow> {#w#})
     = add_mset v (hm_values m)"
  by (induction m) (auto split: option.splits if_splits)

lemma hm_remove_absent: "hm_get m k = None \<Longrightarrow> hm_remove k m = m"
  by (induction m) (auto split: if_splits)

lemma hm_values_remove:
  "hm_wf m \<Longrightarrow>
   hm_values (hm_remove k m) + (case hm_get m k of None \<Rightarrow> {#} | Some w \<Rightarrow> {#w#}) = hm_values m"
proof (induction m)
  case (Cons p m)
  obtain a b where p: "p = (a, b)" by (cases p)
  from Cons.prems have wf: "hm_wf m" and fresh: "hm_get m a = None"
    by (auto simp: p hm_wf_def hm_get_def map_of_eq_None_iff)
  show ?case
  proof (cases "a = k")
    case True
    with fresh show ?thesis by (simp add: p hm_remove_absent)
  next
    case False
    with Cons.IH [OF wf] show ?thesis
      by (auto simp: p split: option.splits)
  qed
qed simp

subsection \<open>The contract of the map operations\<close>

text \<open>Everything the components rely on: what a lookup returns after an insertion or a
  removal, and that no value is lost or duplicated (\<open>vals\<close> is the multiset of stored
  values).\<close>

locale hash_map =
  fixes empty :: "'m"
    and get :: "'m \<Rightarrow> 'k \<Rightarrow> 'v option"
    and ins :: "'k \<Rightarrow> 'v \<Rightarrow> 'm \<Rightarrow> 'm"
    and rem :: "'k \<Rightarrow> 'm \<Rightarrow> 'm"
    and vals :: "'m \<Rightarrow> 'v multiset"
    and wf :: "'m \<Rightarrow> bool"
  assumes get_empty: "get empty k = None"
    and get_ins: "get (ins k v m) k' = (if k' = k then Some v else get m k')"
    and get_rem: "get (rem k m) k' = (if k' = k then None else get m k')"
    and vals_empty: "vals empty = {#}"
    and vals_ins: "vals (ins k v m) + (case get m k of None \<Rightarrow> {#} | Some w \<Rightarrow> {#w#})
                     = add_mset v (vals m)"
    and vals_rem: "wf m \<Longrightarrow>
        vals (rem k m) + (case get m k of None \<Rightarrow> {#} | Some w \<Rightarrow> {#w#}) = vals m"
    and wf_empty: "wf empty"
    and wf_ins: "wf m \<Longrightarrow> wf (ins k v m)"
    and wf_rem: "wf m \<Longrightarrow> wf (rem k m)"
begin

lemma get_ins_eq: "get (ins k v m) = (get m)(k \<mapsto> v)"
  by (rule ext) (simp add: get_ins)

lemma get_rem_eq: "get (rem k m) = (get m)(k := None)"
  by (rule ext) (simp add: get_rem)

lemma vals_ins_fresh: "get m k = None \<Longrightarrow> vals (ins k v m) = add_mset v (vals m)"
  using vals_ins [of k v m] by simp

lemma vals_ins_replace:
  "get m k = Some w \<Longrightarrow> add_mset w (vals (ins k v m)) = add_mset v (vals m)"
  using vals_ins [of k v m] by simp

lemma vals_rem_present:
  "wf m \<Longrightarrow> get m k = Some w \<Longrightarrow> add_mset w (vals (rem k m)) = vals m"
  using vals_rem [of m k] by simp

end

interpretation hm: hash_map "[]" hm_get hm_insert hm_remove hm_values hm_wf
  by unfold_locales
    (simp_all add: hm_get_insert hm_get_remove hm_values_insert hm_values_remove
      hm_wf_insert hm_wf_remove)

named_theorems hm_simps

lemmas [hm_simps] = hm.get_ins hm.get_rem hm_keys_get

lemma hm_get_or_insert [hm_simps]:
  "hm_get (hm_or_insert k v m) k' =
     (if k' = k \<and> hm_get m k = None then Some v else hm_get m k')"
  by (auto simp: hm_or_insert_def hm_get_insert split: option.splits)

lemma hm_wf_or_insert: "hm_wf m \<Longrightarrow> hm_wf (hm_or_insert k v m)"
  by (auto simp: hm_or_insert_def hm_wf_insert split: option.splits)

lemmas hm_wfs = hm.wf_empty hm.wf_ins hm.wf_rem hm_wf_or_insert

lemma hm_all_iff:
  "hm_wf m \<Longrightarrow> list_all (\<lambda>(k, v). P v) m \<longleftrightarrow> (\<forall>k v. hm_get m k = Some v \<longrightarrow> P v)"
  by (auto simp: hm_wf_def hm_get_def list_all_iff dest: map_of_SomeD)

end
