(* ===== verification/Decimal.thy ===== *)
theory Decimal
  imports Prelude
begin

text \<open>
  \<open>to_string\<close> of an unsigned integer, as the configuration and the message identifiers use
  it: the decimal digits without leading zeros. The lemmas show that the text determines the
  number, also when it is followed by a text that does not start with a digit or preceded by
  one that ends in a separator.
\<close>

definition digit :: "nat \<Rightarrow> char" where
  "digit d = char_of (48 + d)"

definition is_digit :: "char \<Rightarrow> bool" where
  "is_digit c \<longleftrightarrow> 48 \<le> (of_char c :: nat) \<and> (of_char c :: nat) \<le> 57"

fun show_nat :: "nat \<Rightarrow> string" where
  "show_nat n = (if n < 10 then [digit n] else show_nat (n div 10) @ [digit (n mod 10)])"

declare show_nat.simps [simp del]

text \<open>The value of a digit string, the inverse of \<open>show_nat\<close>.\<close>

definition read_nat :: "string \<Rightarrow> nat" where
  "read_nat s = foldl (\<lambda>n c. 10 * n + (of_char c - 48)) 0 s"

text \<open>Evaluation on numerals; the conditional equations do not unfold a symbolic argument.\<close>

lemma show_nat_eval:
  "n < 10 \<Longrightarrow> show_nat n = [digit n]"
  "10 \<le> n \<Longrightarrow> show_nat n = show_nat (n div 10) @ [digit (n mod 10)]"
  by (subst show_nat.simps; simp)+

lemma digit_eval:
  "digit 0 = CHR ''0''" "digit 1 = CHR ''1''" "digit 2 = CHR ''2''" "digit 3 = CHR ''3''"
  "digit 4 = CHR ''4''" "digit 5 = CHR ''5''" "digit 6 = CHR ''6''" "digit 7 = CHR ''7''"
  "digit 8 = CHR ''8''" "digit 9 = CHR ''9''"
  by code_simp+

lemma digit_Suc_0: "digit (Suc 0) = CHR ''1''"
  by code_simp

lemmas decimal_eval = show_nat_eval digit_eval digit_Suc_0

lemma of_char_digit: "d < 10 \<Longrightarrow> (of_char (digit d) :: nat) = 48 + d"
  by (simp add: digit_def)

lemma is_digit_digit: "d < 10 \<Longrightarrow> is_digit (digit d)"
  by (simp add: is_digit_def of_char_digit)

lemma show_nat_digits: "\<forall>c \<in> set (show_nat n). is_digit c"
proof (induction n rule: show_nat.induct)
  case (1 n)
  then show ?case
    by (subst show_nat.simps) (auto simp: is_digit_digit)
qed

lemma read_show_nat: "read_nat (show_nat n) = n"
proof (induction n rule: show_nat.induct)
  case (1 n)
  show ?case
  proof (cases "n < 10")
    case True
    then show ?thesis
      by (subst show_nat.simps) (simp add: read_nat_def of_char_digit)
  next
    case False
    with 1 have "read_nat (show_nat (n div 10)) = n div 10" by simp
    with False show ?thesis
      by (subst show_nat.simps) (simp add: read_nat_def of_char_digit)
  qed
qed

lemma show_nat_inject: "show_nat m = show_nat n \<longleftrightarrow> m = n"
  by (metis read_show_nat)

text \<open>Digits followed by a text that does not start with a digit split in one way only.\<close>

definition starts_with_digit :: "string \<Rightarrow> bool" where
  "starts_with_digit s = (case s of [] \<Rightarrow> False | c # _ \<Rightarrow> is_digit c)"

lemma takeWhile_digits:
  assumes "\<forall>c \<in> set ds. is_digit c" and "\<not> starts_with_digit s"
  shows "takeWhile is_digit (ds @ s) = ds" and "dropWhile is_digit (ds @ s) = s"
  using assms by (induction ds) (auto simp: starts_with_digit_def split: list.splits)

lemma show_nat_append_inject:
  assumes "\<not> starts_with_digit s" and "\<not> starts_with_digit t"
  shows "show_nat m @ s = show_nat n @ t \<longleftrightarrow> m = n \<and> s = t"
proof
  assume eq: "show_nat m @ s = show_nat n @ t"
  have "show_nat m = show_nat n"
    using takeWhile_digits(1) [OF show_nat_digits assms(1)]
      takeWhile_digits(1) [OF show_nat_digits assms(2)] eq by metis
  moreover have "s = t"
    using takeWhile_digits(2) [OF show_nat_digits assms(1)]
      takeWhile_digits(2) [OF show_nat_digits assms(2)] eq by metis
  ultimately show "m = n \<and> s = t" by (simp add: show_nat_inject)
qed simp

text \<open>More digits after a number are a larger number.\<close>

lemma read_nat_snoc: "read_nat (ds @ [c]) = 10 * read_nat ds + (of_char c - 48)"
  by (simp add: read_nat_def)

lemma is_digit_cases:
  assumes "is_digit c"
  obtains d where "d < 10" and "c = digit d"
  using assms that [of "of_char c - 48"] by (auto simp: is_digit_def digit_def)

lemma show_nat_append_digits:
  assumes "0 < m" and "\<forall>c \<in> set ds. is_digit c"
  shows "show_nat (m * 10 ^ length ds + read_nat ds) = show_nat m @ ds"
  using assms(2)
proof (induction ds rule: rev_induct)
  case Nil
  show ?case by (simp add: read_nat_def)
next
  case (snoc c ds)
  let ?k = "m * 10 ^ length ds + read_nat ds"
  from snoc.prems obtain d where d: "d < 10" "c = digit d" by (auto elim: is_digit_cases)
  have eq: "m * 10 ^ length (ds @ [c]) + read_nat (ds @ [c]) = 10 * ?k + d"
    by (simp add: read_nat_snoc d of_char_digit algebra_simps)
  have "1 \<le> m * 10 ^ length ds" using assms(1) by simp
  then have "1 \<le> ?k" by linarith
  moreover have "show_nat (10 * k + d) = show_nat k @ [digit d]" if "1 \<le> k" for k
    using d(1) that by (subst show_nat_eval(2)) simp_all
  ultimately have "show_nat (10 * ?k + d) = show_nat ?k @ [digit d]" by blast
  with snoc d show ?case unfolding eq by simp
qed

text \<open>When the texts of two numbers, each followed by another text, are the same.\<close>

lemma show_nat_append_eq:
  assumes "0 < m" and "0 < n"
  shows "show_nat m @ s = show_nat n @ t \<longleftrightarrow> (\<exists>ds. (\<forall>c \<in> set ds. is_digit c)
     \<and> (s = ds @ t \<and> n = m * 10 ^ length ds + read_nat ds \<or> t = ds @ s \<and> m = n * 10 ^ length ds + read_nat ds))"
proof
  assume eq: "show_nat m @ s = show_nat n @ t"
  have longer: "(\<forall>c \<in> set ds. is_digit c) \<and> k = j * 10 ^ length ds + read_nat ds"
    if "show_nat k = show_nat j @ ds" and "0 < j" for j k ds
  proof -
    have digits: "\<forall>c \<in> set ds. is_digit c" using show_nat_digits [of k] that(1) by simp
    with show_nat_append_digits [OF that(2) this] that(1) show ?thesis by (metis show_nat_inject)
  qed
  from eq obtain ds where "show_nat n = show_nat m @ ds \<and> s = ds @ t \<or> show_nat m = show_nat n @ ds \<and> t = ds @ s"
    unfolding append_eq_append_conv2 by metis
  with longer assms show "\<exists>ds. (\<forall>c \<in> set ds. is_digit c)
     \<and> (s = ds @ t \<and> n = m * 10 ^ length ds + read_nat ds \<or> t = ds @ s \<and> m = n * 10 ^ length ds + read_nat ds)"
    by blast
qed (use assms in \<open>auto simp: show_nat_append_digits\<close>)

text \<open>A text, a separator that is no digit, then digits: both parts can be recovered.\<close>

lemma append_show_nat_inject:
  assumes "\<not> is_digit c"
  shows "s @ c # show_nat m = t @ c # show_nat n \<longleftrightarrow> s = t \<and> m = n"
proof
  assume eq: "s @ c # show_nat m = t @ c # show_nat n"
  have split: "takeWhile is_digit (rev (u @ c # show_nat k)) = rev (show_nat k)"
    "dropWhile is_digit (rev (u @ c # show_nat k)) = c # rev u" for u k
    using takeWhile_digits [of "rev (show_nat k)" "c # rev u"] show_nat_digits assms
    by (simp_all add: starts_with_digit_def)
  from split(1) [of s m] split(1) [of t n] eq have "show_nat m = show_nat n"
    by (metis rev_rev_ident)
  moreover from split(2) [of s m] split(2) [of t n] eq have "s = t"
    by (metis list.inject rev_rev_ident)
  ultimately show "s = t \<and> m = n" by (simp add: show_nat_inject)
qed simp

lemma colon_no_digit [simp]: "\<not> is_digit CHR '':''"
  by (simp add: is_digit_def)

end
