(* ===== verification/Config.thy ===== *)
theory Config
  imports Prelude Decimal
begin

text \<open>
  \<open>src/src/config/mod.rs\<close>: the configuration structs with their defaults, reading and parsing
  the file, and the bind address. The file system and the parser of \<open>toml\<close>, which turns a text into
  a table of values, are parameters. How a table becomes a \<open>Config\<close> is what the \<open>serde\<close> attributes of
  the structs say: a missing field takes its default or is an error, a value of another type is an
  error, and unknown names are ignored. A \<open>usize\<close> is 64 bits wide.
\<close>

section \<open>The configuration\<close>

record NetworkConfig =
  bind_host :: string
  port :: "64 word"

definition NetworkConfig_default :: NetworkConfig where
  "NetworkConfig_default = \<lparr>bind_host = ''localhost'', port = 6680\<rparr>"

definition default_bind :: string where
  "default_bind = bind_host NetworkConfig_default"

definition default_port :: "64 word" where
  "default_port = port NetworkConfig_default"

record PeerConfig =
  seeds :: "string list"
  max_peer_count :: "64 word"
  max_pending_messages :: "64 word"
  max_pending_send_to_all :: "64 word"
  heartbeat_interval :: u64
  delivery_timeout :: u64

definition PeerConfig_default :: PeerConfig where
  "PeerConfig_default =
     \<lparr>seeds = [], max_peer_count = 10, max_pending_messages = 32,
      max_pending_send_to_all = 128, heartbeat_interval = 1000, delivery_timeout = 500\<rparr>"

definition default_seeds :: "string list" where
  "default_seeds = seeds PeerConfig_default"

definition default_max_peer_count :: "64 word" where
  "default_max_peer_count = max_peer_count PeerConfig_default"

definition default_max_pending_messages :: "64 word" where
  "default_max_pending_messages = max_pending_messages PeerConfig_default"

definition default_max_pending_send_to_all :: "64 word" where
  "default_max_pending_send_to_all = max_pending_send_to_all PeerConfig_default"

definition default_heartbeat_interval :: u64 where
  "default_heartbeat_interval = heartbeat_interval PeerConfig_default"

definition default_delivery_timeout :: u64 where
  "default_delivery_timeout = delivery_timeout PeerConfig_default"

record NoiseConfig =
  key :: string

record Config =
  network :: NetworkConfig
  peer :: PeerConfig
  noise :: NoiseConfig

definition Config_default :: Config where
  "Config_default =
     \<lparr>network = NetworkConfig_default, peer = PeerConfig_default, noise = \<lparr>key = ''''\<rparr>\<rparr>"

section \<open>Deserializing\<close>

datatype toml_value =
    TString string
  | TInteger int
  | TArray "toml_value list"
  | TTable "(string \<times> toml_value) list"
  | TOther

fun de_string :: "toml_value \<Rightarrow> string + string" where
  "de_string (TString s) = Inr s"
| "de_string v = Inl ''expected a string''"

fun de_unsigned :: "toml_value \<Rightarrow> string + 64 word" where
  "de_unsigned (TInteger i) = (if 0 \<le> i \<and> i < 2 ^ 64 then Inr (word_of_int i) else Inl ''invalid value'')"
| "de_unsigned v = Inl ''expected an integer''"

fun de_list :: "(toml_value \<Rightarrow> string + 'a) \<Rightarrow> toml_value list \<Rightarrow> string + 'a list" where
  "de_list de [] = Inr []"
| "de_list de (v # vs) = and_then (de v) (\<lambda>x. and_then (de_list de vs) (\<lambda>xs. Inr (x # xs)))"

fun de_vec :: "(toml_value \<Rightarrow> string + 'a) \<Rightarrow> toml_value \<Rightarrow> string + 'a list" where
  "de_vec de (TArray vs) = de_list de vs"
| "de_vec de v = Inl ''expected a sequence''"

text \<open>A derived \<open>Deserialize\<close> of a struct takes a table, or a sequence that gives the fields by their
  position.\<close>

fun fields_of :: "string list \<Rightarrow> toml_value \<Rightarrow> (string \<times> toml_value) list option" where
  "fields_of names (TTable t) = Some t"
| "fields_of names (TArray vs) = Some (zip names vs)"
| "fields_of names v = None"

definition de_struct :: "string list \<Rightarrow> ((string \<times> toml_value) list \<Rightarrow> string + 'a) \<Rightarrow> toml_value \<Rightarrow> string + 'a" where
  "de_struct names de v =
     (case fields_of names v of None \<Rightarrow> Inl ''expected a struct'' | Some t \<Rightarrow> de t)"

text \<open>A field with a default, and one without.\<close>

definition de_field :: "'a \<Rightarrow> (toml_value \<Rightarrow> string + 'a) \<Rightarrow> string \<Rightarrow> (string \<times> toml_value) list \<Rightarrow> string + 'a" where
  "de_field dflt de name t = (case map_of t name of None \<Rightarrow> Inr dflt | Some v \<Rightarrow> de v)"

definition de_required :: "(toml_value \<Rightarrow> string + 'a) \<Rightarrow> string \<Rightarrow> (string \<times> toml_value) list \<Rightarrow> string + 'a" where
  "de_required de name t = (case map_of t name of None \<Rightarrow> Inl ''missing field'' | Some v \<Rightarrow> de v)"

definition NetworkConfig_fields :: "string list" where
  "NetworkConfig_fields = [''bind'', ''port'']"

definition PeerConfig_fields :: "string list" where
  "PeerConfig_fields = [''seeds'', ''max_peer_count'', ''max_pending_messages'',
     ''max_pending_send_to_all'', ''heartbeat_interval'', ''delivery_timeout'']"

definition NoiseConfig_fields :: "string list" where
  "NoiseConfig_fields = [''key'']"

definition de_NetworkConfig :: "(string \<times> toml_value) list \<Rightarrow> string + NetworkConfig" where
  "de_NetworkConfig t =
     and_then (de_field default_bind de_string ''bind'' t) (\<lambda>b.
     and_then (de_field default_port de_unsigned ''port'' t) (\<lambda>p.
     Inr \<lparr>bind_host = b, port = p\<rparr>))"

definition de_PeerConfig :: "(string \<times> toml_value) list \<Rightarrow> string + PeerConfig" where
  "de_PeerConfig t =
     and_then (de_field default_seeds (de_vec de_string) ''seeds'' t) (\<lambda>s.
     and_then (de_field default_max_peer_count de_unsigned ''max_peer_count'' t) (\<lambda>c.
     and_then (de_field default_max_pending_messages de_unsigned ''max_pending_messages'' t) (\<lambda>m.
     and_then (de_field default_max_pending_send_to_all de_unsigned ''max_pending_send_to_all'' t) (\<lambda>a.
     and_then (de_field default_heartbeat_interval de_unsigned ''heartbeat_interval'' t) (\<lambda>h.
     and_then (de_field default_delivery_timeout de_unsigned ''delivery_timeout'' t) (\<lambda>d.
     Inr \<lparr>seeds = s, max_peer_count = c, max_pending_messages = m,
          max_pending_send_to_all = a, heartbeat_interval = h, delivery_timeout = d\<rparr>))))))"

definition de_NoiseConfig :: "(string \<times> toml_value) list \<Rightarrow> string + NoiseConfig" where
  "de_NoiseConfig t = and_then (de_required de_string ''key'' t) (\<lambda>k. Inr \<lparr>key = k\<rparr>)"

definition de_Config :: "(string \<times> toml_value) list \<Rightarrow> string + Config" where
  "de_Config t =
     and_then (de_field NetworkConfig_default (de_struct NetworkConfig_fields de_NetworkConfig) ''network'' t) (\<lambda>n.
     and_then (de_field PeerConfig_default (de_struct PeerConfig_fields de_PeerConfig) ''peer'' t) (\<lambda>p.
     and_then (de_field \<lparr>key = ''''\<rparr> (de_struct NoiseConfig_fields de_NoiseConfig) ''noise'' t) (\<lambda>k.
     Inr \<lparr>network = n, peer = p, noise = k\<rparr>)))"

section \<open>Loading\<close>

text \<open>\<open>open path\<close> is the result of \<open>File::open\<close>; reading the opened file can fail on its own
  (\<open>read_to_string\<close>, for instance on text that is not UTF-8).\<close>

definition read_file :: "(string \<Rightarrow> 'e + 'f) \<Rightarrow> ('f \<Rightarrow> 'e + string) \<Rightarrow> string \<Rightarrow> 'e + string" where
  "read_file open_file read_to_string path =
     (case open_file path of Inl e \<Rightarrow> Inl e | Inr file \<Rightarrow> read_to_string file)"

text \<open>\<open>toml::from_str\<close> is used at the type \<open>Option<Config>\<close>; a value that is there is \<open>Some\<close>.\<close>

definition toml_from_str ::
  "(string \<Rightarrow> string + (string \<times> toml_value) list) \<Rightarrow> string \<Rightarrow> string + Config option" where
  "toml_from_str toml contents = and_then (toml contents) (\<lambda>t. and_then (de_Config t) (\<lambda>c. Inr (Some c)))"

definition parse_config_from_string ::
  "(string \<Rightarrow> string + (string \<times> toml_value) list) \<Rightarrow> string \<Rightarrow> Config option" where
  "parse_config_from_string toml contents =
     (case toml_from_str toml contents of Inl _ \<Rightarrow> None | Inr config \<Rightarrow> config)"

definition load_config_from_file ::
  "(string \<Rightarrow> 'e + 'f) \<Rightarrow> ('f \<Rightarrow> 'e + string) \<Rightarrow> (string \<Rightarrow> string + (string \<times> toml_value) list) \<Rightarrow> string
    \<Rightarrow> Config option" where
  "load_config_from_file open_file read_to_string toml path =
     (case read_file open_file read_to_string path of
        Inl _ \<Rightarrow> Some Config_default
      | Inr contents \<Rightarrow> parse_config_from_string toml contents)"

definition get_bind_address :: "NetworkConfig \<Rightarrow> string" where
  "get_bind_address network_config =
     (bind_host network_config @ '':'') @ show_nat (unat (port network_config))"

section \<open>What a file sets\<close>

text \<open>The value a table gives a setting of a section.\<close>

definition setting ::
  "string list \<Rightarrow> (string \<times> toml_value) list \<Rightarrow> string \<Rightarrow> string \<Rightarrow> toml_value option" where
  "setting names t section_name name =
     (case map_of t section_name of
        None \<Rightarrow> None
      | Some v \<Rightarrow> (case fields_of names v of None \<Rightarrow> None | Some s \<Rightarrow> map_of s name))"

definition holds_setting :: "(toml_value \<Rightarrow> string + 'a) \<Rightarrow> toml_value option \<Rightarrow> 'a \<Rightarrow> 'a \<Rightarrow> bool" where
  "holds_setting de v dflt x \<longleftrightarrow> (case v of None \<Rightarrow> x = dflt | Some v \<Rightarrow> de v = Inr x)"

lemmas defaults = default_bind_def default_port_def default_seeds_def default_max_peer_count_def
  default_max_pending_messages_def default_max_pending_send_to_all_def default_heartbeat_interval_def
  default_delivery_timeout_def NetworkConfig_default_def PeerConfig_default_def

lemma de_field_holds: "de_field dflt de name t = Inr x \<longleftrightarrow> holds_setting de (map_of t name) dflt x"
  by (auto simp: de_field_def holds_setting_def split: option.splits)

lemma de_section:
  assumes "de_field dflt (de_struct names de) name t = Inr x"
  obtains (absent) "map_of t name = None" "x = dflt"
  | (present) v s where "map_of t name = Some v" "fields_of names v = Some s" "de s = Inr x"
proof (cases "map_of t name")
  case (Some v)
  with assms present show ?thesis by (auto simp: de_field_def de_struct_def split: option.splits)
qed (use assms absent in \<open>simp add: de_field_def\<close>)

lemma de_network_settings:
  assumes "de_field NetworkConfig_default (de_struct NetworkConfig_fields de_NetworkConfig) ''network'' t = Inr n"
  shows "holds_setting de_string (setting NetworkConfig_fields t ''network'' ''bind'') ''localhost'' (bind_host n)
     \<and> holds_setting de_unsigned (setting NetworkConfig_fields t ''network'' ''port'') 6680 (port n)"
  using assms
proof (cases rule: de_section)
  case absent
  then show ?thesis by (simp add: setting_def holds_setting_def defaults)
next
  case (present v s)
  then show ?thesis
    by (auto simp: setting_def de_NetworkConfig_def and_then_Inr de_field_holds defaults)
qed

lemma de_peer_settings:
  assumes "de_field PeerConfig_default (de_struct PeerConfig_fields de_PeerConfig) ''peer'' t = Inr p"
  shows "holds_setting (de_vec de_string) (setting PeerConfig_fields t ''peer'' ''seeds'') [] (seeds p)
     \<and> holds_setting de_unsigned (setting PeerConfig_fields t ''peer'' ''max_peer_count'') 10 (max_peer_count p)
     \<and> holds_setting de_unsigned (setting PeerConfig_fields t ''peer'' ''max_pending_messages'') 32 (max_pending_messages p)
     \<and> holds_setting de_unsigned (setting PeerConfig_fields t ''peer'' ''max_pending_send_to_all'') 128 (max_pending_send_to_all p)
     \<and> holds_setting de_unsigned (setting PeerConfig_fields t ''peer'' ''heartbeat_interval'') 1000 (heartbeat_interval p)
     \<and> holds_setting de_unsigned (setting PeerConfig_fields t ''peer'' ''delivery_timeout'') 500 (delivery_timeout p)"
  using assms
proof (cases rule: de_section)
  case absent
  then show ?thesis by (simp add: setting_def holds_setting_def defaults)
next
  case (present v s)
  then show ?thesis
    by (auto simp: setting_def de_PeerConfig_def and_then_Inr de_field_holds defaults)
qed

lemma de_noise_settings:
  assumes "de_field \<lparr>key = ''''\<rparr> (de_struct NoiseConfig_fields de_NoiseConfig) ''noise'' t = Inr k"
  shows "holds_setting de_string (setting NoiseConfig_fields t ''noise'' ''key'') '''' (key k)
     \<and> (map_of t ''noise'' \<noteq> None \<longrightarrow> setting NoiseConfig_fields t ''noise'' ''key'' \<noteq> None)"
  using assms
proof (cases rule: de_section)
  case absent
  then show ?thesis by (simp add: setting_def holds_setting_def)
next
  case (present v s)
  then show ?thesis
    by (auto simp: setting_def de_NoiseConfig_def and_then_Inr de_required_def holds_setting_def
        split: option.splits)
qed

section \<open>Properties\<close>

text \<open>The bind address, which is also the node id, determines the network configuration:
  two nodes with different hosts or ports never share a node id, even when the host itself
  contains colons.\<close>

lemma get_bind_address_inject:
  "get_bind_address a = get_bind_address b \<longleftrightarrow> a = (b :: NetworkConfig)"
proof
  assume "get_bind_address a = get_bind_address b"
  then have "bind_host a = bind_host b \<and> unat (port a) = unat (port b)"
    by (simp add: get_bind_address_def append_show_nat_inject)
  then show "a = b" by (cases a; cases b) (simp add: word_unat_eq_iff)
qed simp

lemma get_bind_address_nonempty: "\<exists>c cs. get_bind_address n = c # cs"
  by (cases "get_bind_address n") (auto simp: get_bind_address_def)

text \<open>Loading yields no configuration only for a file that was read and did not parse: a file
  that cannot be opened or read gives the default configuration, so only a present file can
  stop the node.\<close>

lemma load_config_None_iff:
  "load_config_from_file open_file read_to_string toml path = None \<longleftrightarrow>
     (\<exists>file contents. open_file path = Inr file \<and> read_to_string file = Inr contents
        \<and> (\<exists>e. toml_from_str toml contents = Inl e))"
proof -
  have "toml_from_str toml contents \<noteq> Inr None" for contents
    by (simp add: toml_from_str_def and_then_Inr)
  then show ?thesis
    by (auto simp: load_config_from_file_def read_file_def parse_config_from_string_def
        split: sum.splits) (metis not_None_eq)
qed

text \<open>C36. A configuration that is loaded from a file has, in each of its nine settings, the value the
  file gives it if the file gives one, and the default otherwise, whatever else the file sets or
  leaves out. The exception is the key: a file with a section \<open>noise\<close> must set it.\<close>

theorem config_takes_settings_or_defaults:
  assumes "open_file path = Inr file" and "read_to_string file = Inr contents"
    and "toml contents = Inr t"
    and "load_config_from_file open_file read_to_string toml path = Some c"
  shows "holds_setting de_string (setting NetworkConfig_fields t ''network'' ''bind'') ''localhost'' (bind_host (network c))
     \<and> holds_setting de_unsigned (setting NetworkConfig_fields t ''network'' ''port'') 6680 (port (network c))
     \<and> holds_setting (de_vec de_string) (setting PeerConfig_fields t ''peer'' ''seeds'') [] (seeds (peer c))
     \<and> holds_setting de_unsigned (setting PeerConfig_fields t ''peer'' ''max_peer_count'') 10 (max_peer_count (peer c))
     \<and> holds_setting de_unsigned (setting PeerConfig_fields t ''peer'' ''max_pending_messages'') 32 (max_pending_messages (peer c))
     \<and> holds_setting de_unsigned (setting PeerConfig_fields t ''peer'' ''max_pending_send_to_all'') 128 (max_pending_send_to_all (peer c))
     \<and> holds_setting de_unsigned (setting PeerConfig_fields t ''peer'' ''heartbeat_interval'') 1000 (heartbeat_interval (peer c))
     \<and> holds_setting de_unsigned (setting PeerConfig_fields t ''peer'' ''delivery_timeout'') 500 (delivery_timeout (peer c))
     \<and> holds_setting de_string (setting NoiseConfig_fields t ''noise'' ''key'') '''' (key (noise c))
     \<and> (map_of t ''noise'' \<noteq> None \<longrightarrow> setting NoiseConfig_fields t ''noise'' ''key'' \<noteq> None)"
proof -
  from assms have "de_Config t = Inr c"
    by (auto simp: load_config_from_file_def read_file_def parse_config_from_string_def toml_from_str_def
        and_then_Inr split: sum.splits)
  then obtain n p k where "de_field NetworkConfig_default (de_struct NetworkConfig_fields de_NetworkConfig) ''network'' t = Inr n"
    "de_field PeerConfig_default (de_struct PeerConfig_fields de_PeerConfig) ''peer'' t = Inr p"
    "de_field \<lparr>key = ''''\<rparr> (de_struct NoiseConfig_fields de_NoiseConfig) ''noise'' t = Inr k"
    "c = \<lparr>network = n, peer = p, noise = k\<rparr>"
    by (auto simp: de_Config_def and_then_Inr)
  with de_network_settings [of t n] de_peer_settings [of t p] de_noise_settings [of t k] show ?thesis by simp
qed

theorem config_takes_settings_or_defaults_witness:
  "\<exists>c. load_config_from_file (\<lambda>path. Inr path :: string + string) (\<lambda>file. Inr ''text'')
       (\<lambda>contents. Inr [(''peer'', TTable [(''max_peer_count'', TInteger 100)])]) ''config.toml'' = Some c
     \<and> max_peer_count (peer c) = 100 \<and> delivery_timeout (peer c) = 500 \<and> port (network c) = 6680"
proof -
  let ?t = "[(''peer'', TTable [(''max_peer_count'', TInteger 100)])]"
  let ?load = "load_config_from_file (\<lambda>path. Inr path :: string + string) (\<lambda>file. Inr ''text'')
       (\<lambda>contents. Inr ?t) ''config.toml''"
  have "\<exists>c. ?load = Some c"
    by (simp add: load_config_from_file_def read_file_def parse_config_from_string_def toml_from_str_def
        de_Config_def de_field_def de_struct_def de_PeerConfig_def)
  then obtain c where c: "?load = Some c" by blast
  from config_takes_settings_or_defaults [OF refl refl refl c] c show ?thesis
    by (auto simp: setting_def holds_setting_def)
qed

end
