(* ===== verification/Messages.thy ===== *)
theory Messages
  imports Prelude
begin

text \<open>
  The messages nodes exchange (\<open>src/src/node/protocol.rs\<close> and the message structs of the files
  under \<open>src/src/node/protocol/\<close>): the data types with the source's variants, the
  \<open>NetworkMessage\<close> accessors and the \<open>From\<close> conversions, and the wrapper
  \<open>ReliableNetworkMessage\<close> of the reliable sender.

  A \<open>SystemTime\<close> is the number of nanoseconds since the Unix epoch, negative before it.
\<close>

type_synonym SystemTime = int

section \<open>Message structs\<close>

datatype MessageId = MessageId u64

record HandshakeMessage =
  hs_sender_id :: string
  hs_message :: string
  hs_version :: string

definition HandshakeMessage_new :: "string \<Rightarrow> string \<Rightarrow> string \<Rightarrow> HandshakeMessage" where
  "HandshakeMessage_new sender_id message version =
     \<lparr>hs_sender_id = sender_id, hs_message = message, hs_version = version\<rparr>"

definition HandshakeMessage_default :: HandshakeMessage where
  "HandshakeMessage_default = \<lparr>hs_sender_id = '''', hs_message = '''', hs_version = ''''\<rparr>"

record HeartbeatMessage =
  hb_sender_id :: string
  hb_time :: SystemTime

text \<open>\<open>now\<close> is the value \<open>SystemTime::now()\<close> returns.\<close>

definition HeartbeatMessage_default :: "SystemTime \<Rightarrow> HeartbeatMessage" where
  "HeartbeatMessage_default now = \<lparr>hb_sender_id = '''', hb_time = now\<rparr>"

definition HeartbeatMessage_new :: "string \<Rightarrow> SystemTime \<Rightarrow> HeartbeatMessage" where
  "HeartbeatMessage_new sender_id time = \<lparr>hb_sender_id = sender_id, hb_time = time\<rparr>"

record PingMessage =
  ping_sender_id :: string
  ping_message :: string

definition PingMessage_new :: "string \<Rightarrow> string \<Rightarrow> PingMessage" where
  "PingMessage_new sender_id message = \<lparr>ping_sender_id = sender_id, ping_message = message\<rparr>"

definition PingMessage_default :: PingMessage where
  "PingMessage_default = \<lparr>ping_sender_id = '''', ping_message = ''''\<rparr>"

record MembershipMessage =
  ms_sender_id :: string
  ms_message :: "string list option"

definition MembershipMessage_new :: "string \<Rightarrow> string list option \<Rightarrow> MembershipMessage" where
  "MembershipMessage_new sender_id members =
     \<lparr>ms_sender_id = sender_id, ms_message = members\<rparr>"

record RoundOnePackageMessage =
  r1_sender_id :: string
  r1_message :: string

definition RoundOnePackageMessage_new :: "string \<Rightarrow> string \<Rightarrow> RoundOnePackageMessage" where
  "RoundOnePackageMessage_new sender_id message =
     \<lparr>r1_sender_id = sender_id, r1_message = message\<rparr>"

definition RoundOnePackageMessage_default :: RoundOnePackageMessage where
  "RoundOnePackageMessage_default = \<lparr>r1_sender_id = '''', r1_message = ''''\<rparr>"

section \<open>The message enums\<close>

datatype Unicast =
    Handshake HandshakeMessage
  | Heartbeat HeartbeatMessage
  | Ping PingMessage
  | Membership MembershipMessage

datatype Broadcast = RoundOnePackage RoundOnePackageMessage "MessageId option"

datatype Message = UnicastMessage Unicast | BroadcastMessage Broadcast

datatype ReliableNetworkMessage = Send Message u64 | Ack u64

fun get_sender_id :: "Message \<Rightarrow> string" where
  "get_sender_id (UnicastMessage (Handshake m)) = hs_sender_id m"
| "get_sender_id (UnicastMessage (Heartbeat m)) = hb_sender_id m"
| "get_sender_id (UnicastMessage (Ping m)) = ping_sender_id m"
| "get_sender_id (UnicastMessage (Membership m)) = ms_sender_id m"
| "get_sender_id (BroadcastMessage (RoundOnePackage m mid)) = r1_sender_id m"

fun get_message_id :: "Message \<Rightarrow> MessageId option" where
  "get_message_id (UnicastMessage m) = None"
| "get_message_id (BroadcastMessage (RoundOnePackage m mid)) = mid"

section \<open>Conversions into a message\<close>

definition Message_from_Heartbeat :: "HeartbeatMessage \<Rightarrow> Message" where
  "Message_from_Heartbeat value = UnicastMessage (Heartbeat value)"

definition Message_from_Handshake :: "HandshakeMessage \<Rightarrow> Message" where
  "Message_from_Handshake value = UnicastMessage (Handshake value)"

definition Message_from_Ping :: "PingMessage \<Rightarrow> Message" where
  "Message_from_Ping value = UnicastMessage (Ping value)"

definition Message_from_Membership :: "MembershipMessage \<Rightarrow> Message" where
  "Message_from_Membership value = UnicastMessage (Membership value)"

definition Message_from_RoundOnePackage :: "RoundOnePackageMessage \<Rightarrow> Message" where
  "Message_from_RoundOnePackage value = BroadcastMessage (RoundOnePackage value None)"

fun Message_from_Broadcast :: "Broadcast \<Rightarrow> Message" where
  "Message_from_Broadcast (RoundOnePackage m message_id) =
     BroadcastMessage (RoundOnePackage m message_id)"

named_theorems message_defs

lemmas [message_defs] =
  HandshakeMessage_new_def HandshakeMessage_default_def HeartbeatMessage_default_def
  HeartbeatMessage_new_def PingMessage_new_def PingMessage_default_def
  MembershipMessage_new_def RoundOnePackageMessage_new_def RoundOnePackageMessage_default_def
  Message_from_Heartbeat_def Message_from_Handshake_def Message_from_Ping_def
  Message_from_Membership_def Message_from_RoundOnePackage_def

lemma Message_from_Broadcast_eq [simp]: "Message_from_Broadcast b = BroadcastMessage b"
  by (cases b) simp

end
