(* ===== verification/MessageIds.thy ===== *)
theory MessageIds
  imports Messages Decimal
begin

text \<open>
  \<open>src/src/node/protocol/message_id_generator.rs\<close>. The hash of a string is a parameter:
  \<open>DefaultHasher\<close> promises no particular algorithm, only that it maps a string to a \<open>u64\<close>.
  The clock reading is a parameter too. What is proved is about the text that is hashed.
\<close>

section \<open>The generator\<close>

record MessageIdGenerator =
  gen_node_id :: string

definition MessageIdGenerator_new :: "string \<Rightarrow> MessageIdGenerator" where
  "MessageIdGenerator_new node_id = \<lparr>gen_node_id = node_id\<rparr>"

definition calculate_hash :: "(string \<Rightarrow> u64) \<Rightarrow> string \<Rightarrow> MessageId" where
  "calculate_hash hasher t = MessageId (hasher t)"

text \<open>\<open>duration_since(UNIX_EPOCH).unwrap()\<close> panics on a clock that is before the epoch.\<close>

definition next_id :: "(string \<Rightarrow> u64) \<Rightarrow> SystemTime \<Rightarrow> MessageIdGenerator \<Rightarrow> MessageId outcome" where
  "next_id hasher now g =
     (if now < 0 then Panicked
      else Done (calculate_hash hasher (show_nat (nat now) @ gen_node_id g)))"

section \<open>Which ids can coincide\<close>

lemma next_id_Done:
  "next_id hasher now g = Done i \<longleftrightarrow>
     0 \<le> now \<and> i = MessageId (hasher (show_nat (nat now) @ gen_node_id g))"
  by (auto simp: next_id_def calculate_hash_def)

text \<open>C32. Two ids drawn from generators whose node ids do not start with a digit are different
  as soon as the clock readings or the node ids differ, provided the hash does not collide on
  the two texts: the concatenation of time and node id is unambiguous for such node ids.\<close>

theorem next_id_distinct:
  assumes "next_id hasher t g = Done i" and "next_id hasher t' g' = Done i'"
    and "\<not> starts_with_digit (gen_node_id g)" and "\<not> starts_with_digit (gen_node_id g')"
    and "inj_on hasher {show_nat (nat t) @ gen_node_id g, show_nat (nat t') @ gen_node_id g'}"
    and "t \<noteq> t' \<or> gen_node_id g \<noteq> gen_node_id g'"
  shows "i \<noteq> i'"
proof
  assume "i = i'"
  with assms(1,2) have "hasher (show_nat (nat t) @ gen_node_id g)
      = hasher (show_nat (nat t') @ gen_node_id g')"
    by (simp add: next_id_Done)
  with assms(5) have "show_nat (nat t) @ gen_node_id g = show_nat (nat t') @ gen_node_id g'"
    by (rule inj_onD) simp_all
  then have "nat t = nat t' \<and> gen_node_id g = gen_node_id g'"
    by (simp add: show_nat_append_inject assms(3,4))
  moreover have "0 \<le> t" "0 \<le> t'"
    using assms(1,2) by (simp_all add: next_id_Done)
  ultimately show False using assms(6) by (metis eq_nat_nat_iff)
qed

theorem next_id_distinct_witness:
  "next_id (\<lambda>s. of_nat (length s)) 7 (MessageIdGenerator_new ''localhost'') = Done (MessageId 10)
   \<and> next_id (\<lambda>s. of_nat (length s)) 12 (MessageIdGenerator_new ''localhost'') = Done (MessageId 11)
   \<and> MessageId 10 \<noteq> MessageId 11"
proof -
  let ?h = "\<lambda>s :: string. of_nat (length s) :: u64" and ?g = "MessageIdGenerator_new ''localhost''"
  have t: "show_nat (nat 7) = ''7''" "show_nat (nat 12) = ''12''"
    by (simp_all add: decimal_eval)
  have ids: "next_id ?h 7 ?g = Done (MessageId 10)" "next_id ?h 12 ?g = Done (MessageId 11)"
    by (simp_all add: next_id_def calculate_hash_def MessageIdGenerator_new_def decimal_eval)
  have start: "\<not> starts_with_digit (gen_node_id ?g)"
    by (simp add: MessageIdGenerator_new_def starts_with_digit_def is_digit_def)
  have inj: "inj_on ?h {show_nat (nat 7) @ gen_node_id ?g, show_nat (nat 12) @ gen_node_id ?g}"
    by (simp only: t) (simp add: MessageIdGenerator_new_def)
  show ?thesis
    using ids next_id_distinct [OF ids start start inj] by simp
qed

text \<open>C40. Exactly when two ids coincide, for node ids of any form and clocks past the epoch, unless
  the hash collides: there is no separator between the two parts, so a node id that starts with
  digits can pass for the end of a longer time. But then one reading is at least ten times the
  other. For readings closer than that, the ids are different as soon as the readings or the
  node ids are.\<close>

theorem next_id_eq_iff:
  assumes "0 < t" and "0 < t'"
    and "inj_on hasher {show_nat (nat t) @ gen_node_id g, show_nat (nat t') @ gen_node_id g'}"
  shows "(next_id hasher t g = next_id hasher t' g' \<longleftrightarrow>
       (\<exists>ds. (\<forall>c \<in> set ds. is_digit c)
          \<and> (gen_node_id g = ds @ gen_node_id g' \<and> nat t' = nat t * 10 ^ length ds + read_nat ds
             \<or> gen_node_id g' = ds @ gen_node_id g \<and> nat t = nat t' * 10 ^ length ds + read_nat ds)))
     \<and> (t < 10 * t' \<and> t' < 10 * t \<longrightarrow>
          (next_id hasher t g = next_id hasher t' g' \<longleftrightarrow> t = t' \<and> gen_node_id g = gen_node_id g'))"
    (is "(?same \<longleftrightarrow> (\<exists>ds. ?digits ds \<and> (?longer t t' g g' ds \<or> ?longer t' t g' g ds))) \<and> (?close \<longrightarrow> _)")
proof -
  have same: "?same \<longleftrightarrow> show_nat (nat t) @ gen_node_id g = show_nat (nat t') @ gen_node_id g'"
    using assms by (auto simp: next_id_def calculate_hash_def dest: inj_onD)
  then have iff: "?same \<longleftrightarrow> (\<exists>ds. ?digits ds \<and> (?longer t t' g g' ds \<or> ?longer t' t g' g ds))"
    using show_nat_append_eq [of "nat t" "nat t'"] assms(1,2) by simp
  have empty: "ds = []" if "nat u' = nat u * 10 ^ length ds + read_nat ds" and "u' < 10 * u" and "0 < u"
    for ds u u'
  proof (rule ccontr)
    assume "ds \<noteq> []"
    then have "10 ^ 1 \<le> (10 :: nat) ^ length ds" by (intro power_increasing) (simp_all add: Suc_leI)
    then have "10 * nat u \<le> nat u'" using that(1) by (simp add: mult.commute trans_le_add1)
    with that(2,3) show False by linarith
  qed
  have "t = t' \<and> gen_node_id g = gen_node_id g'" if ?same and ?close
  proof -
    from iff that(1) obtain ds where "?longer t t' g g' ds \<or> ?longer t' t g' g ds" by blast
    then have "gen_node_id g = gen_node_id g' \<and> nat t = nat t'"
      using empty [of t' t ds] empty [of t t' ds] that(2) assms(1,2) by (auto simp: read_nat_def)
    with assms(1,2) show ?thesis by (simp add: eq_nat_nat_iff)
  qed
  moreover have ?same if "t = t' \<and> gen_node_id g = gen_node_id g'"
    using that unfolding same by metis
  ultimately show ?thesis using iff by blast
qed

theorem next_id_eq_iff_witness:
  "next_id (\<lambda>s. of_nat (length s)) 11 (MessageIdGenerator_new ''27.0.0.1:6680'')
     = next_id (\<lambda>s. of_nat (length s)) 1 (MessageIdGenerator_new ''127.0.0.1:6680'')
   \<and> next_id (\<lambda>s. of_nat (length s)) 11 (MessageIdGenerator_new ''27.0.0.1:6680'')
     \<noteq> next_id (\<lambda>s. of_nat (length s)) 12 (MessageIdGenerator_new ''127.0.0.1:6680'')"
proof -
  let ?h = "\<lambda>s :: string. of_nat (length s) :: u64"
  let ?a = "MessageIdGenerator_new ''27.0.0.1:6680''" and ?b = "MessageIdGenerator_new ''127.0.0.1:6680''"
  have t: "show_nat (nat 1) = ''1''" "show_nat (nat 11) = ''11''" "show_nat (nat 12) = ''12''"
    by (simp_all add: decimal_eval)
  have inj: "inj_on ?h {show_nat (nat 11) @ gen_node_id ?a, show_nat (nat 1) @ gen_node_id ?b}"
    "inj_on ?h {show_nat (nat 11) @ gen_node_id ?a, show_nat (nat 12) @ gen_node_id ?b}"
    by (simp_all only: t) (simp_all add: MessageIdGenerator_new_def)
  have "next_id ?h 11 ?a = next_id ?h 1 ?b"
    by (subst conjunct1 [OF next_id_eq_iff [OF _ _ inj(1)]])
      (simp_all add: MessageIdGenerator_new_def read_nat_def is_digit_def exI [of _ "''1''"])
  moreover from conjunct2 [OF next_id_eq_iff [OF _ _ inj(2)]] have "next_id ?h 11 ?a \<noteq> next_id ?h 12 ?b" by simp
  ultimately show ?thesis by blast
qed

end
