(* ===== verification/Actors.thy ===== *)
theory Actors
  imports Prelude
begin

text \<open>
  The actor discipline every component of the node follows: a task owns its state, takes one
  command at a time from an \<open>mpsc\<close> channel, and answers through the \<open>oneshot\<close> sender that the
  command carries. A handler is a function from the state and a command to the effects it
  performs, in order, and the outcome of its body. \<open>actor_run\<close> is the loop
  \<open>while let Some(message) = receiver.recv().await { handle(message).await }\<close>:

  \<^item> a handler that returns leaves the task running with the new state;
  \<^item> a handler that panics ends the task: the senders it owns and the sender of the command
    at hand are dropped, and every later command is refused, which drops its sender too;
  \<^item> a handler that waits for ever leaves the task stuck: later commands stay in the queue.

  The locale \<open>oneshot_actor\<close> is the contract between an actor and the callers that wait on a
  \<open>oneshot\<close>: one step neither loses nor duplicates a sender. Its consequences for whole runs
  are proved once.
\<close>

section \<open>Effects and tasks\<close>

text \<open>\<open>Reply ch v\<close> is \<open>respond_to.send(v)\<close>, \<open>DropTx ch\<close> a sender dropped without a value,
  \<open>Out x\<close> any other output (a frame, a message for another channel).\<close>

datatype ('v, 'o) effect = Reply chan 'v | DropTx chan | Out 'o

datatype 's task = Running 's | Crashed | Stuck

fun consumed :: "('v, 'o) effect list \<Rightarrow> chan multiset" where
  "consumed [] = {#}"
| "consumed (Reply ch v # es) = add_mset ch (consumed es)"
| "consumed (DropTx ch # es) = add_mset ch (consumed es)"
| "consumed (Out x # es) = consumed es"

fun outs :: "('v, 'o) effect list \<Rightarrow> 'o list" where
  "outs [] = []"
| "outs (Out x # es) = x # outs es"
| "outs (Reply ch v # es) = outs es"
| "outs (DropTx ch # es) = outs es"

text \<open>What \<open>receiver.await\<close> yields on the channel \<open>ch\<close> after these effects: \<open>None\<close> while it
  waits, \<open>Some (Inl ())\<close> for \<open>RecvError\<close>, \<open>Some (Inr v)\<close> for a value.\<close>

fun oneshot_await :: "('v, 'o) effect list \<Rightarrow> chan \<Rightarrow> (unit + 'v) option" where
  "oneshot_await [] ch = None"
| "oneshot_await (Reply c v # es) ch = (if c = ch then Some (Inr v) else oneshot_await es ch)"
| "oneshot_await (DropTx c # es) ch = (if c = ch then Some (Inl ()) else oneshot_await es ch)"
| "oneshot_await (Out x # es) ch = oneshot_await es ch"

type_synonym ('s, 'c, 'v, 'o) step = "'s \<Rightarrow> 'c \<Rightarrow> ('v, 'o) effect list \<times> 's outcome"

fun actor_run ::
  "('s, 'c, 'v, 'o) step \<Rightarrow> ('s \<Rightarrow> chan list) \<Rightarrow> ('c \<Rightarrow> chan list) \<Rightarrow> 's task \<Rightarrow> 'c list
    \<Rightarrow> ('v, 'o) effect list \<times> 's task" where
  "actor_run step held txs t [] = ([], t)"
| "actor_run step held txs (Running s) (c # cs) =
     (case step s c of
        (es, Done s') \<Rightarrow>
          (let (es', t) = actor_run step held txs (Running s') cs in (es @ es', t))
      | (es, Panicked) \<Rightarrow>
          (let (es', t) = actor_run step held txs Crashed cs
           in (es @ map DropTx (held s @ txs c) @ es', t))
      | (es, Blocked) \<Rightarrow> (es, Stuck))"
| "actor_run step held txs Crashed (c # cs) =
     (let (es', t) = actor_run step held txs Crashed cs in (map DropTx (txs c) @ es', t))"
| "actor_run step held txs Stuck (c # cs) = ([], Stuck)"

section \<open>Effect lists\<close>

lemma consumed_append [simp]: "consumed (es @ es') = consumed es + consumed es'"
  by (induction es rule: consumed.induct) auto

lemma outs_append [simp]: "outs (es @ es') = outs es @ outs es'"
  by (induction es rule: outs.induct) auto

lemma consumed_map_DropTx [simp]: "consumed (map DropTx chs) = mset chs"
  by (induction chs) auto

lemma outs_map_DropTx [simp]: "outs (map DropTx chs) = []"
  by (induction chs) auto

lemma consumed_map_Out [simp]: "consumed (map Out xs) = {#}"
  by (induction xs) auto

lemma outs_map_Out [simp]: "outs (map Out xs) = xs"
  by (induction xs) auto

lemma Reply_consumed: "Reply ch v \<in> set es \<Longrightarrow> ch \<in># consumed es"
  by (induction es rule: consumed.induct) auto

lemma DropTx_consumed: "DropTx ch \<in> set es \<Longrightarrow> ch \<in># consumed es"
  by (induction es rule: consumed.induct) auto

lemma oneshot_await_None: "oneshot_await es ch = None \<longleftrightarrow> ch \<notin># consumed es"
  by (induction es rule: consumed.induct) auto

lemma oneshot_await_Reply: "oneshot_await es ch = Some (Inr v) \<Longrightarrow> Reply ch v \<in> set es"
  by (induction es rule: consumed.induct) (auto split: if_splits)

lemma oneshot_await_DropTx: "oneshot_await es ch = Some (Inl u) \<Longrightarrow> DropTx ch \<in> set es"
  by (induction es rule: consumed.induct) (auto split: if_splits)

text \<open>On a channel that is used at most once, the first event is the only one.\<close>

lemma oneshot_await_once:
  assumes "Reply ch v \<in> set es" and "count (consumed es) ch \<le> 1"
  shows "oneshot_await es ch = Some (Inr v)"
  using assms
proof (induction es rule: consumed.induct)
  case (2 c w es)
  show ?case
  proof (cases "c = ch")
    case True
    with "2.prems"(2) have "ch \<notin># consumed es" by (simp add: not_in_iff)
    with "2.prems"(1) True show ?thesis by (auto dest: Reply_consumed)
  next
    case False
    with 2 show ?thesis by auto
  qed
next
  case (3 c es)
  show ?case
  proof (cases "c = ch")
    case True
    with "3.prems"(2) have "ch \<notin># consumed es" by (simp add: not_in_iff)
    with "3.prems"(1) True show ?thesis by (auto dest: Reply_consumed)
  next
    case False
    with 3 show ?thesis by auto
  qed
qed auto

lemma oneshot_await_dropped:
  assumes "DropTx ch \<in> set es" and "count (consumed es) ch \<le> 1"
  shows "oneshot_await es ch = Some (Inl ())"
proof -
  from DropTx_consumed [OF assms(1)] obtain x where x: "oneshot_await es ch = Some x"
    by (cases "oneshot_await es ch") (simp_all add: oneshot_await_None)
  have "2 \<le> count (consumed es) ch" if "Reply ch v \<in> set es" for v
    using that assms(1)
    by (induction es rule: consumed.induct)
      (auto dest: DropTx_consumed Reply_consumed simp: numeral_2_eq_2)
  with assms(2) have "oneshot_await es ch \<noteq> Some (Inr v)" for v by (fastforce dest: oneshot_await_Reply)
  with x show ?thesis by (cases x) auto
qed

section \<open>Runs\<close>

lemma actor_run_Crashed:
  "actor_run step held txs Crashed cs = (map DropTx (concat (map txs cs)), Crashed)"
  by (induction cs) (auto simp: Let_def)

lemma actor_run_Stuck: "actor_run step held txs Stuck cs = ([], Stuck)"
  by (cases cs) auto

lemma actor_run_append:
  "actor_run step held txs t (cs @ cs') =
     (let (es, t') = actor_run step held txs t cs;
          (es', t'') = actor_run step held txs t' cs'
      in (es @ es', t''))"
  by (induction step held txs t cs rule: actor_run.induct)
    (auto simp: Let_def actor_run_Stuck split: prod.splits outcome.splits)

text \<open>Induction over the steps of a run that is still running: the shape of every history
  invariant below.\<close>

lemma actor_run_snoc_Running:
  assumes "actor_run step held txs (Running s0) (cs @ [c]) = (es, Running s)"
  obtains es1 s1 es2 where "actor_run step held txs (Running s0) cs = (es1, Running s1)"
    and "step s1 c = (es2, Done s)" and "es = es1 @ es2"
  using assms
  by (cases "actor_run step held txs (Running s0) cs"; cases "snd (actor_run step held txs (Running s0) cs)")
    (auto simp: actor_run_append Let_def actor_run_Stuck actor_run_Crashed
      split: prod.splits outcome.splits)

lemma actor_run_induct [consumes 1, case_names start step]:
  assumes run: "actor_run step held txs (Running s0) cs = (es, Running s)"
    and base: "P [] [] s0"
    and step: "\<And>cs es s c es' s'.
        actor_run step held txs (Running s0) cs = (es, Running s) \<Longrightarrow> P cs es s \<Longrightarrow>
        step s c = (es', Done s') \<Longrightarrow> P (cs @ [c]) (es @ es') s'"
  shows "P cs es s"
  using run
proof (induction cs arbitrary: es s rule: rev_induct)
  case Nil
  with base show ?case by simp
next
  case (snoc c cs)
  from snoc.prems obtain es1 s1 es2
    where "actor_run step held txs (Running s0) cs = (es1, Running s1)"
      and "step s1 c = (es2, Done s)" and "es = es1 @ es2"
    by (rule actor_run_snoc_Running)
  with snoc.IH step show ?case by blast
qed

text \<open>A run that got past some commands was running after every prefix of them.\<close>

lemma actor_run_prefix_Running:
  assumes "actor_run step held txs t (cs @ cs') = (es, Running s)"
  obtains es1 s1 es2 where "actor_run step held txs t cs = (es1, Running s1)"
    and "actor_run step held txs (Running s1) cs' = (es2, Running s)" and "es = es1 @ es2"
proof -
  obtain es1 t1 where 1: "actor_run step held txs t cs = (es1, t1)" by force
  obtain es2 t2 where 2: "actor_run step held txs t1 cs' = (es2, t2)" by force
  from assms 1 2 have es: "es = es1 @ es2" and t2: "t2 = Running s"
    by (auto simp: actor_run_append)
  obtain s1 where "t1 = Running s1"
    using 2 t2 by (cases t1) (auto simp: actor_run_Crashed actor_run_Stuck)
  with 1 2 es t2 show ?thesis by (auto intro: that)
qed

text \<open>An effect other than a dropped sender comes from a step of the running task.\<close>

lemma actor_run_origin:
  assumes "x \<in> set (fst (actor_run step held txs (Running s0) cs))" and "\<forall>ch. x \<noteq> DropTx ch"
  obtains before c after es1 s1 es2 r where "cs = before @ c # after"
    and "actor_run step held txs (Running s0) before = (es1, Running s1)"
    and "step s1 c = (es2, r)" and "x \<in> set es2"
proof -
  have "\<exists>before c after es1 s1 es2 r. cs = before @ c # after
      \<and> actor_run step held txs (Running s0) before = (es1, Running s1)
      \<and> step s1 c = (es2, r) \<and> x \<in> set es2"
    using assms(1)
  proof (induction cs arbitrary: s0)
    case (Cons c cs)
    obtain es r where c: "step s0 c = (es, r)" by force
    show ?case
    proof (cases "x \<in> set es")
      case True
      with c show ?thesis by (intro exI [of _ "[]"] exI [of _ c] exI [of _ cs]) auto
    next
      case False
      with Cons.prems c assms(2) obtain s1
        where s1: "r = Done s1" and "x \<in> set (fst (actor_run step held txs (Running s1) cs))"
        by (auto simp: Let_def actor_run_Crashed split: outcome.splits prod.splits)
      from Cons.IH [OF this(2)] obtain before c' after es1 s' es2 r'
        where "cs = before @ c' # after"
          and "actor_run step held txs (Running s1) before = (es1, Running s')"
          and "step s' c' = (es2, r')" and "x \<in> set es2"
        by blast
      moreover from this c s1
      have "actor_run step held txs (Running s0) (c # before) = (es @ es1, Running s')"
        by simp
      ultimately show ?thesis by (metis append_Cons)
    qed
  qed simp
  then show ?thesis by (elim exE conjE) (rule that)
qed

lemma actor_run_step_effects:
  assumes "actor_run step held txs (Running s0) before = (es1, Running s1)" and "step s1 c = (es2, r)"
  shows "set es2 \<subseteq> set (fst (actor_run step held txs (Running s0) (before @ c # after)))"
  using assms by (cases r) (auto simp: actor_run_append split: prod.splits)

text \<open>The run of an actor that does not panic goes through all events, or stops at one of them.\<close>

lemma actor_run_cases:
  assumes "\<And>s c. snd (step s c) \<noteq> Panicked"
  obtains (running) es s where "actor_run step held txs (Running s0) cs = (es, Running s)"
  | (stuck) before c after es1 s es2 where "cs = before @ c # after"
      "actor_run step held txs (Running s0) before = (es1, Running s)" "step s c = (es2, Blocked)"
      "actor_run step held txs (Running s0) cs = (es1 @ es2, Stuck)"
proof -
  have "(\<exists>es s. actor_run step held txs (Running s0) cs = (es, Running s))
      \<or> (\<exists>before c after es1 s es2. cs = before @ c # after
          \<and> actor_run step held txs (Running s0) before = (es1, Running s) \<and> step s c = (es2, Blocked)
          \<and> actor_run step held txs (Running s0) cs = (es1 @ es2, Stuck))"
  proof (induction cs rule: rev_induct)
    case (snoc c cs)
    from snoc.IH show ?case
    proof (elim disjE exE conjE)
      fix es s
      assume run: "actor_run step held txs (Running s0) cs = (es, Running s)"
      show ?thesis
      proof (cases "step s c")
        case (Pair es' r)
        with run assms [of s c] show ?thesis
          by (cases r) (auto simp: actor_run_append, blast+)
      qed
    next
      fix before c' after es1 s es2
      assume "cs = before @ c' # after" "actor_run step held txs (Running s0) before = (es1, Running s)"
        "step s c' = (es2, Blocked)" "actor_run step held txs (Running s0) cs = (es1 @ es2, Stuck)"
      then show ?thesis
        by (intro disjI2 exI [of _ before] exI [of _ c'] exI [of _ "after @ [c]"]
            exI [of _ es1] exI [of _ s] exI [of _ es2])
          (simp add: actor_run_append actor_run_Stuck)
    qed
  qed simp
  with running stuck show ?thesis by blast
qed

section \<open>The contract between an actor and its callers\<close>

locale oneshot_actor =
  fixes step :: "('s, 'c, 'v, 'o) step"
    and held :: "'s \<Rightarrow> chan list"
    and txs :: "'c \<Rightarrow> chan list"
    and invar :: "'s \<Rightarrow> bool"
  assumes step_invar: "invar s \<Longrightarrow> step s c = (es, Done s') \<Longrightarrow> invar s'"
    and step_conserve: "invar s \<Longrightarrow> step s c = (es, Done s') \<Longrightarrow>
        consumed es + mset (held s') = mset (held s) + mset (txs c)"
    and step_panic: "invar s \<Longrightarrow> step s c = (es, Panicked) \<Longrightarrow> consumed es = {#}"
    and step_blocked: "invar s \<Longrightarrow> step s c = (es, Blocked) \<Longrightarrow>
        consumed es \<subseteq># mset (held s) + mset (txs c)"
begin

lemma run_invar:
  "invar s \<Longrightarrow> actor_run step held txs (Running s) cs = (es, Running s') \<Longrightarrow> invar s'"
proof (induction cs arbitrary: s es)
  case (Cons c cs)
  then show ?case
    by (auto simp: Let_def actor_run_Crashed intro: step_invar
        split: prod.splits outcome.splits)
qed simp

text \<open>While the task runs, every sender it was given is held or has been used once; after a
  crash every sender has been used or dropped.\<close>

lemma run_conserve:
  assumes "invar s" and "actor_run step held txs (Running s) cs = (es, t)" and "t \<noteq> Stuck"
  shows "consumed es + (case t of Running s' \<Rightarrow> mset (held s') | _ \<Rightarrow> {#})
           = mset (held s) + mset (concat (map txs cs))"
  using assms
proof (induction cs arbitrary: s es)
  case (Cons c cs)
  obtain es1 r where step: "step s c = (es1, r)" by force
  show ?case
  proof (cases r)
    case (Done s1)
    obtain es2 where rest: "actor_run step held txs (Running s1) cs = (es2, t)"
      and es: "es = es1 @ es2"
      using Cons.prems(2) step Done by (auto simp: Let_def split: prod.splits)
    have "invar s1" using step_invar Cons.prems(1) step Done by blast
    from Cons.IH [OF this rest Cons.prems(3)]
    have "consumed es2 + (case t of Running s' \<Rightarrow> mset (held s') | _ \<Rightarrow> {#})
        = mset (held s1) + mset (concat (map txs cs))" .
    moreover have "consumed es1 + mset (held s1) = mset (held s) + mset (txs c)"
      using step_conserve Cons.prems(1) step Done by blast
    ultimately show ?thesis
      by (simp add: es) (metis (no_types, lifting) add.assoc add.commute)
  next
    case Panicked
    with Cons.prems step show ?thesis
      by (auto simp: Let_def actor_run_Crashed step_panic)
  next
    case Blocked
    with Cons.prems step show ?thesis by auto
  qed
qed auto

text \<open>In every run, stuck or not, no sender is used more often than it was handed over.\<close>

lemma run_consumed_le:
  assumes "invar s" and "actor_run step held txs (Running s) cs = (es, t)"
  shows "consumed es \<subseteq># mset (held s) + mset (concat (map txs cs))"
  using assms
proof (induction cs arbitrary: s es)
  case (Cons c cs)
  obtain es1 r where step: "step s c = (es1, r)" by force
  show ?case
  proof (cases r)
    case (Done s1)
    obtain es2 where rest: "actor_run step held txs (Running s1) cs = (es2, t)"
      and es: "es = es1 @ es2"
      using Cons.prems(2) step Done by (auto simp: Let_def split: prod.splits)
    have "invar s1" using step_invar Cons.prems(1) step Done by blast
    from Cons.IH [OF this rest]
    have "consumed es1 + consumed es2
        \<subseteq># (consumed es1 + mset (held s1)) + mset (concat (map txs cs))"
      by (simp add: add.assoc)
    also have "consumed es1 + mset (held s1) = mset (held s) + mset (txs c)"
      using step_conserve Cons.prems(1) step Done by blast
    finally show ?thesis by (simp add: es add.assoc)
  next
    case Panicked
    with Cons.prems step show ?thesis
      by (auto simp: Let_def actor_run_Crashed step_panic)
  next
    case Blocked
    with Cons.prems step step_blocked [of s c es1]
    have "consumed es \<subseteq># mset (held s) + mset (txs c)" by auto
    then show ?thesis by (simp add: add.assoc [symmetric] subset_mset.add_increasing2)
  qed
qed auto

lemma run_at_most_once:
  assumes "invar s" and "actor_run step held txs (Running s) cs = (es, t)"
    and "distinct (held s @ concat (map txs cs))"
  shows "count (consumed es) ch \<le> 1"
proof -
  have "consumed es \<subseteq># mset (held s @ concat (map txs cs))"
    using run_consumed_le [OF assms(1,2)] by simp
  then have "count (consumed es) ch \<le> count (mset (held s @ concat (map txs cs))) ch"
    by (rule mset_subset_eq_count)
  also have "\<dots> \<le> 1"
    using assms(3) by (simp only: distinct_count_atmost_1) simp
  finally show ?thesis .
qed

lemma run_reply_awaited:
  assumes "invar s" and "actor_run step held txs (Running s) cs = (es, t)"
    and "distinct (held s @ concat (map txs cs))" and "Reply ch v \<in> set es"
  shows "oneshot_await es ch = Some (Inr v)"
  using assms(4) run_at_most_once [OF assms(1-3)] by (rule oneshot_await_once)

lemma run_drop_awaited:
  assumes "invar s" and "actor_run step held txs (Running s) cs = (es, t)"
    and "distinct (held s @ concat (map txs cs))" and "DropTx ch \<in> set es"
  shows "oneshot_await es ch = Some (Inl ())"
  using assms(4) run_at_most_once [OF assms(1-3)] by (rule oneshot_await_dropped)

text \<open>The caller of a channel that the running actor holds waits.\<close>

lemma run_held_waits:
  assumes "invar s" and "actor_run step held txs (Running s) cs = (es, Running s')"
    and "distinct (held s @ concat (map txs cs))" and "ch \<in> set (held s')"
  shows "oneshot_await es ch = None"
proof -
  have "consumed es + mset (held s') = mset (held s @ concat (map txs cs))"
    using run_conserve [OF assms(1,2)] by simp
  then have "count (consumed es) ch + count (mset (held s')) ch \<le> 1"
    using assms(3) by (metis count_union distinct_count_atmost_1 le_zero_eq nat_le_linear)
  moreover have "0 < count (mset (held s')) ch" using assms(4) by simp
  ultimately have "count (consumed es) ch = 0" by linarith
  then show ?thesis by (simp add: oneshot_await_None not_in_iff)
qed

text \<open>A caller that still waits on a running actor is one whose sender the actor holds.\<close>

lemma run_waiting_held:
  assumes "invar s" and "actor_run step held txs (Running s) cs = (es, Running s')"
    and "ch \<in> set (held s) \<union> set (concat (map txs cs))" and "oneshot_await es ch = None"
  shows "ch \<in> set (held s')"
proof -
  have "consumed es + mset (held s') = mset (held s) + mset (concat (map txs cs))"
    using run_conserve [OF assms(1,2)] by simp
  then have "ch \<in># consumed es + mset (held s')"
    using assms(3) by auto
  with assms(4) show ?thesis by (simp add: oneshot_await_None)
qed

end

end
