(* ===== verification/MembershipActor.thy ===== *)
theory MembershipActor
  imports Actors
begin

text \<open>
  \<open>src/src/node/membership.rs\<close>: the actor that owns the map from a peer's address to the handle
  of its reliable sender, the loop that serves it, and the handle its clients call. A
  \<open>ReliableSenderHandle\<close> is named by a number.

  The abstract specification is a partial function updated by each command
  (\<open>membership_spec\<close>); the actor refines it command by command.
\<close>

section \<open>The actor\<close>

type_synonym handle = nat
type_synonym ReliableSenderMap = "(string, handle) hashmap"

text \<open>The enum \<open>MembershipMessage\<close> of this file, renamed because the protocol message has the
  same name.\<close>

datatype MembershipCommand =
    Add string handle chan
  | Remove string chan
  | GetMembers chan

datatype membership_reply = Added | Removed "handle option" | Members ReliableSenderMap

record MembershipActor =
  members :: ReliableSenderMap

type_synonym membership_effect = "(membership_reply, unit) effect"

definition MembershipActor_start :: MembershipActor where
  "MembershipActor_start = \<lparr>members = []\<rparr>"

definition actor_add_member ::
  "MembershipActor \<Rightarrow> string \<Rightarrow> handle \<Rightarrow> chan \<Rightarrow> membership_effect list \<times> MembershipActor" where
  "actor_add_member a node_id h respond_to =
     ([Reply respond_to Added], a\<lparr>members := hm_insert node_id h (members a)\<rparr>)"

definition actor_remove_member ::
  "MembershipActor \<Rightarrow> string \<Rightarrow> chan \<Rightarrow> membership_effect list \<times> MembershipActor" where
  "actor_remove_member a node_id respond_to =
     (let removed = hm_get (members a) node_id
      in ([Reply respond_to (Removed removed)], a\<lparr>members := hm_remove node_id (members a)\<rparr>))"

definition actor_get_members ::
  "MembershipActor \<Rightarrow> chan \<Rightarrow> membership_effect list \<times> MembershipActor" where
  "actor_get_members a respond_to = ([Reply respond_to (Members (members a))], a)"

text \<open>One round of \<open>run_membership_actor\<close>; no branch can panic or wait.\<close>

fun membership_step :: "(MembershipActor, MembershipCommand, membership_reply, unit) step" where
  "membership_step a (Add node_id h respond_to) =
     (let (es, a') = actor_add_member a node_id h respond_to in (es, Done a'))"
| "membership_step a (Remove node_id respond_to) =
     (let (es, a') = actor_remove_member a node_id respond_to in (es, Done a'))"
| "membership_step a (GetMembers respond_to) =
     (let (es, a') = actor_get_members a respond_to in (es, Done a'))"

fun membership_tx :: "MembershipCommand \<Rightarrow> chan list" where
  "membership_tx (Add node_id h ch) = [ch]"
| "membership_tx (Remove node_id ch) = [ch]"
| "membership_tx (GetMembers ch) = [ch]"

text \<open>The actor answers within the step, so it holds no sender between steps.\<close>

definition membership_held :: "MembershipActor \<Rightarrow> chan list" where
  "membership_held a = []"

definition run_membership_actor ::
  "MembershipActor task \<Rightarrow> MembershipCommand list \<Rightarrow> membership_effect list \<times> MembershipActor task" where
  "run_membership_actor = actor_run membership_step membership_held membership_tx"

section \<open>The handle\<close>

text \<open>A call of the handle creates a fresh channel \<open>ch\<close>, sends one command and waits for the
  answer. The commands other clients queued before it are steps of their own.\<close>

definition MembershipHandle_start :: "MembershipActor task" where
  "MembershipHandle_start = Running MembershipActor_start"

definition MembershipHandle_add_member ::
  "MembershipActor task \<Rightarrow> chan \<Rightarrow> string \<Rightarrow> handle \<Rightarrow> MembershipActor task \<times> (string + unit) outcome" where
  "MembershipHandle_add_member t ch member h =
     (let (es, t') = run_membership_actor t [Add member h ch]
      in (t', case oneshot_await es ch of
           None \<Rightarrow> Blocked
         | Some (Inl _) \<Rightarrow> Done (Inl ''Error adding member'')
         | Some (Inr _) \<Rightarrow> Done (Inr ())))"

definition MembershipHandle_remove_member ::
  "MembershipActor task \<Rightarrow> chan \<Rightarrow> string \<Rightarrow> MembershipActor task \<times> (string + unit) outcome" where
  "MembershipHandle_remove_member t ch member =
     (let (es, t') = run_membership_actor t [Remove member ch]
      in (t', case oneshot_await es ch of
           None \<Rightarrow> Blocked
         | Some (Inl _) \<Rightarrow> Panicked
         | Some (Inr (Removed (Some _))) \<Rightarrow> Done (Inr ())
         | Some (Inr _) \<Rightarrow> Done (Inl ''Error removing member'')))"

definition MembershipHandle_get_members ::
  "MembershipActor task \<Rightarrow> chan \<Rightarrow> (string + ReliableSenderMap) outcome" where
  "MembershipHandle_get_members t ch =
     (if t = Crashed then Done (Inl ''Error sending request to get members'')
      else case oneshot_await (fst (run_membership_actor t [GetMembers ch])) ch of
           None \<Rightarrow> Blocked
         | Some (Inr (Members m)) \<Rightarrow> Done (Inr m)
         | Some _ \<Rightarrow> Done (Inl ''Error reading membership''))"

section \<open>The abstract specification\<close>

fun membership_apply :: "(string \<rightharpoonup> handle) \<Rightarrow> MembershipCommand \<Rightarrow> (string \<rightharpoonup> handle)" where
  "membership_apply m (Add k h ch) = m(k \<mapsto> h)"
| "membership_apply m (Remove k ch) = m(k := None)"
| "membership_apply m (GetMembers ch) = m"

definition membership_spec :: "MembershipCommand list \<Rightarrow> (string \<rightharpoonup> handle)" where
  "membership_spec cs = foldl membership_apply Map.empty cs"

text \<open>The answer the specification gives to a command, over the view before it.\<close>

fun reply_ok :: "(string \<rightharpoonup> handle) \<Rightarrow> MembershipCommand \<Rightarrow> membership_effect list \<Rightarrow> bool" where
  "reply_ok m (Add k h ch) es \<longleftrightarrow> es = [Reply ch Added]"
| "reply_ok m (Remove k ch) es \<longleftrightarrow> es = [Reply ch (Removed (m k))]"
| "reply_ok m (GetMembers ch) es \<longleftrightarrow> (\<exists>l. es = [Reply ch (Members l)] \<and> hm_wf l \<and> hm_get l = m)"

section \<open>The actor refines the specification\<close>

definition membership_wf :: "MembershipActor \<Rightarrow> bool" where
  "membership_wf a = hm_wf (members a)"

lemmas membership_defs =
  actor_add_member_def actor_remove_member_def actor_get_members_def membership_held_def
  membership_wf_def

lemma membership_step_wf:
  "membership_wf a \<Longrightarrow> membership_step a c = (es, Done a') \<Longrightarrow> membership_wf a'"
  by (cases c) (auto simp: membership_defs Let_def intro: hm_wfs)

interpretation membership: oneshot_actor membership_step membership_held membership_tx membership_wf
proof unfold_locales
  fix a a' c es
  assume "membership_wf a" and step: "membership_step a c = (es, Done a')"
  then show "membership_wf a'" by (rule membership_step_wf)
  from step show "consumed es + mset (membership_held a')
      = mset (membership_held a) + mset (membership_tx c)"
    by (cases c) (auto simp: membership_defs Let_def)
next
  fix a c es
  show "membership_step a c = (es, Panicked) \<Longrightarrow> consumed es = {#}"
    and "membership_step a c = (es, Blocked) \<Longrightarrow>
      consumed es \<subseteq># mset (membership_held a) + mset (membership_tx c)"
    by (cases c; simp add: Let_def split: prod.splits)+
qed

lemma membership_step_Done:
  "\<exists>es a'. membership_step a c = (es, Done a')
     \<and> hm_get (members a') = membership_apply (hm_get (members a)) c
     \<and> (membership_wf a \<longrightarrow> reply_ok (hm_get (members a)) c es)"
  by (cases c) (auto simp: membership_defs Let_def hm.get_ins_eq hm.get_rem_eq)

lemma run_membership_Cons:
  assumes "membership_step a c = (es, Done a')"
  shows "run_membership_actor (Running a) (c # cs) =
    (let (es', t) = run_membership_actor (Running a') cs in (es @ es', t))"
  using assms by (simp add: run_membership_actor_def)

lemma run_membership_Running:
  "\<exists>es a'. run_membership_actor (Running a) cs = (es, Running a')
     \<and> hm_get (members a') = foldl membership_apply (hm_get (members a)) cs"
proof (induction cs arbitrary: a)
  case Nil
  then show ?case by (simp add: run_membership_actor_def)
next
  case (Cons c cs)
  obtain es a1 where step: "membership_step a c = (es, Done a1)"
    and view: "hm_get (members a1) = membership_apply (hm_get (members a)) c"
    using membership_step_Done [of a c] by blast
  obtain es' a' where "run_membership_actor (Running a1) cs = (es', Running a')"
    and "hm_get (members a') = foldl membership_apply (hm_get (members a1)) cs"
    using Cons.IH by blast
  with step view show ?case by (simp add: run_membership_Cons)
qed

text \<open>C9. Every sequence of commands, from any number of interleaved clients, leaves the actor
  running with the map the specification computes, and each command is answered on its own
  channel with the value the specification has at that point.\<close>

theorem membership_refines_spec:
  "\<exists>es a es' a'.
     run_membership_actor MembershipHandle_start cs = (es, Running a)
     \<and> hm_get (members a) = membership_spec cs
     \<and> run_membership_actor MembershipHandle_start (cs @ [c]) = (es @ es', Running a')
     \<and> reply_ok (membership_spec cs) c es'"
proof -
  have view0: "hm_get (members MembershipActor_start) = Map.empty"
    by (auto simp: MembershipActor_start_def)
  obtain es a where run: "run_membership_actor (Running MembershipActor_start) cs = (es, Running a)"
    and view: "hm_get (members a) = membership_spec cs"
    using run_membership_Running [of MembershipActor_start cs]
    by (auto simp: membership_spec_def view0)
  have "membership_wf MembershipActor_start"
    by (simp add: membership_wf_def MembershipActor_start_def)
  with run have wf: "membership_wf a"
    unfolding run_membership_actor_def by (rule membership.run_invar [rotated])
  obtain es' a' where step: "membership_step a c = (es', Done a')"
    and ok: "reply_ok (hm_get (members a)) c es'"
    using membership_step_Done [of a c] wf by blast
  have "run_membership_actor (Running MembershipActor_start) (cs @ [c]) = (es @ es', Running a')"
    using run step by (simp add: run_membership_actor_def actor_run_append)
  with run view ok show ?thesis by (auto simp: MembershipHandle_start_def)
qed

text \<open>The handle never fails on an actor the node started: whatever commands came before,
  \<open>get_members\<close> returns the current map, so the \<open>unwrap\<close>s on its result in the protocol, the
  echo broadcast service and the node do not panic.\<close>

lemma get_members_never_fails:
  "\<exists>m. MembershipHandle_get_members (snd (run_membership_actor MembershipHandle_start cs)) ch
         = Done (Inr m)
       \<and> hm_get m = membership_spec cs"
proof -
  obtain es a where "run_membership_actor MembershipHandle_start cs = (es, Running a)"
    and "hm_get (members a) = membership_spec cs"
    using run_membership_Running [of MembershipActor_start cs]
    by (auto simp: membership_spec_def MembershipHandle_start_def MembershipActor_start_def)
  then show ?thesis
    by (simp add: MembershipHandle_get_members_def run_membership_actor_def
        actor_get_members_def)
qed

text \<open>The removal succeeds exactly when the node is a member; an unknown node is reported as an error.\<close>

lemma remove_member_result:
  "MembershipHandle_remove_member (Running a) ch k =
     (Running (a\<lparr>members := hm_remove k (members a)\<rparr>),
      Done (if hm_get (members a) k = None then Inl ''Error removing member'' else Inr ()))"
  by (auto simp: MembershipHandle_remove_member_def run_membership_actor_def
      actor_remove_member_def Let_def hm_simps split: option.splits)

end
