(* ===== verification/Protocols.thy ===== *)
theory Protocols
  imports Messages MessageIds MembershipActor
begin

text \<open>
  The protocol services (\<open>src/src/node/protocol.rs\<close> and the files under
  \<open>src/src/node/protocol/\<close>) and the shared \<open>State\<close> (\<open>src/src/node/state.rs\<close>). A service's \<open>call\<close>
  is a function from the message to \<open>Result<Option<Message>, _>\<close>, wrapped in an outcome where
  its body can panic. What a call reads from outside is an environment: the clock, the hash
  function and the fresh channel it asks the membership actor on.

  The locale \<open>replying_service\<close> is the contract every service keeps towards the connection loop
  that sends its replies to the peer: a reply is of smaller rank than the message it answers.
  So an exchange of replies between nodes ends.
\<close>

section \<open>State and environment\<close>

record State =
  membership_handle :: "MembershipActor task"
  message_id_generator :: MessageIdGenerator

definition State_new :: "MembershipActor task \<Rightarrow> MessageIdGenerator \<Rightarrow> State" where
  "State_new membership generator =
     \<lparr>membership_handle = membership, message_id_generator = generator\<rparr>"

record env =
  env_now :: SystemTime
  env_hasher :: "string \<Rightarrow> u64"
  env_chan :: chan

type_synonym service_result = "string + Message option"

datatype 'a poll = Ready 'a | Pending

section \<open>The services\<close>

fun Ping_call :: "string \<Rightarrow> Message \<Rightarrow> service_result" where
  "Ping_call local_sender_id (UnicastMessage (Ping m)) =
     (if ping_message m = ''''
      then Inr (Some (Message_from_Ping (PingMessage_new local_sender_id ''ping'')))
      else if ping_message m = ''ping''
      then Inr (Some (Message_from_Ping (PingMessage_new local_sender_id ''pong'')))
      else Inr None)"
| "Ping_call local_sender_id _ = Inr None"

fun Handshake_call :: "string \<Rightarrow> Message \<Rightarrow> service_result" where
  "Handshake_call local_sender_id (UnicastMessage (Handshake m)) =
     (if hs_message m = ''helo''
      then Inr (Some (UnicastMessage (Handshake
             \<lparr>hs_sender_id = local_sender_id, hs_message = ''oleh'', hs_version = ''0.1.0''\<rparr>)))
      else if hs_message m = ''oleh'' then Inr None
      else Inr (Some (UnicastMessage (Handshake
             \<lparr>hs_sender_id = local_sender_id, hs_message = ''helo'', hs_version = ''0.1.0''\<rparr>))))"
| "Handshake_call local_sender_id _ = Inr None"

fun Heartbeat_call :: "SystemTime \<Rightarrow> string \<Rightarrow> Message \<Rightarrow> service_result" where
  "Heartbeat_call now self_sender_id (UnicastMessage (Heartbeat m)) =
     (if hb_sender_id m = ''''
      then Inr (Some (UnicastMessage (Heartbeat
             \<lparr>hb_sender_id = self_sender_id, hb_time = now\<rparr>)))
      else Inr None)"
| "Heartbeat_call now self_sender_id _ = Inr None"

text \<open>The service ignores its own \<open>sender_id\<close>: the name \<open>sender_id\<close> in the reply is the one
  bound by the pattern, the requester's.\<close>

fun Membership_call :: "env \<Rightarrow> string \<Rightarrow> State \<Rightarrow> Message \<Rightarrow> service_result outcome" where
  "Membership_call e self_sender_id state (UnicastMessage (Membership m)) =
     (case ms_message m of
        None \<Rightarrow>
          bind_outcome (MembershipHandle_get_members (membership_handle state) (env_chan e))
            (\<lambda>r. bind_outcome (unwrap_result r)
              (\<lambda>members. Done (Inr (Some (Message_from_Membership
                 \<lparr>ms_sender_id = ms_sender_id m, ms_message = Some (hm_keys members)\<rparr>)))))
      | Some _ \<Rightarrow> Done (Inr None))"
| "Membership_call e self_sender_id state _ = Done (Inr None)"

fun RoundOnePackage_call :: "env \<Rightarrow> string \<Rightarrow> State \<Rightarrow> Message \<Rightarrow> service_result outcome" where
  "RoundOnePackage_call e self_sender_id state (BroadcastMessage (RoundOnePackage m (Some mid))) =
     Done (Inr None)"
| "RoundOnePackage_call e self_sender_id state (BroadcastMessage (RoundOnePackage m None)) =
     bind_outcome (next_id (env_hasher e) (env_now e) (message_id_generator state))
       (\<lambda>mid. Done (Inr (Some (BroadcastMessage (RoundOnePackage m (Some mid))))))"
| "RoundOnePackage_call e self_sender_id state (UnicastMessage u) =
     Done (Inl ''Round one package should not be unicast'')"

section \<open>The dispatcher\<close>

record Protocol =
  protocol_node_id :: string
  protocol_state :: State

definition Protocol_new :: "string \<Rightarrow> State \<Rightarrow> Protocol" where
  "Protocol_new node_id state = \<lparr>protocol_node_id = node_id, protocol_state = state\<rparr>"

definition Protocol_poll_ready :: "Protocol \<Rightarrow> (string + unit) poll" where
  "Protocol_poll_ready p = Ready (Inr ())"

fun Protocol_call :: "env \<Rightarrow> Protocol \<Rightarrow> Message \<Rightarrow> service_result outcome" where
  "Protocol_call e p (UnicastMessage (Ping m)) =
     Done (Ping_call (protocol_node_id p) (UnicastMessage (Ping m)))"
| "Protocol_call e p (UnicastMessage (Handshake m)) =
     Done (Handshake_call (protocol_node_id p) (UnicastMessage (Handshake m)))"
| "Protocol_call e p (UnicastMessage (Heartbeat m)) =
     Done (Heartbeat_call (env_now e) (protocol_node_id p) (UnicastMessage (Heartbeat m)))"
| "Protocol_call e p (UnicastMessage (Membership m)) =
     Membership_call e (protocol_node_id p) (protocol_state p) (UnicastMessage (Membership m))"
| "Protocol_call e p (BroadcastMessage (RoundOnePackage m mid)) =
     RoundOnePackage_call e (protocol_node_id p) (protocol_state p)
       (BroadcastMessage (RoundOnePackage m mid))"

text \<open>With a running membership actor and a clock after the epoch every message is answered, or
  found to need no answer; the dispatcher sends no service a message of the wrong kind.\<close>

lemma Protocol_call_returns:
  assumes "membership_handle state = Running a" and "0 \<le> env_now e"
  shows "\<exists>r. Protocol_call e (Protocol_new node_id state) m = Done (Inr r)"
proof (cases "(e, Protocol_new node_id state, m)" rule: Protocol_call.cases)
  case (4 e' p m')
  with assms(1) show ?thesis
    by (cases "ms_message m'")
      (auto simp: Protocol_new_def MembershipHandle_get_members_def run_membership_actor_def
        actor_get_members_def)
next
  case (5 e' p m' mid)
  with assms(2) show ?thesis by (cases mid) (auto simp: next_id_def)
qed auto

section \<open>Exchanges of replies end\<close>

locale replying_service =
  fixes call :: "'e \<Rightarrow> Message \<Rightarrow> service_result outcome"
    and rank :: "Message \<Rightarrow> nat"
  assumes reply_rank: "call e m = Done (Inr (Some m')) \<Longrightarrow> rank m' < rank m"
begin

text \<open>Each message of an exchange answers the one before, in whatever environment the
  answering node is at that moment.\<close>

lemma exchange_bounded:
  "successively (\<lambda>m m'. \<exists>e. call e m = Done (Inr (Some m'))) (m # ms) \<Longrightarrow> length ms \<le> rank m"
proof (induction ms arbitrary: m)
  case (Cons m' ms)
  then obtain e where "call e m = Done (Inr (Some m'))" by auto
  then have "rank m' < rank m" by (rule reply_rank)
  moreover from Cons have "length ms \<le> rank m'" by simp
  ultimately show ?case by simp
qed simp

end

text \<open>How many replies a message can still cause.\<close>

fun reply_rank :: "Message \<Rightarrow> nat" where
  "reply_rank (UnicastMessage (Ping m)) =
     (if ping_message m = '''' then 2 else if ping_message m = ''ping'' then 1 else 0)"
| "reply_rank (UnicastMessage (Handshake m)) =
     (if hs_message m = ''oleh'' then 0 else if hs_message m = ''helo'' then 1 else 2)"
| "reply_rank (UnicastMessage (Heartbeat m)) = (if hb_sender_id m = '''' then 1 else 0)"
| "reply_rank (UnicastMessage (Membership m)) = (if ms_message m = None then 1 else 0)"
| "reply_rank (BroadcastMessage (RoundOnePackage m mid)) = (if mid = None then 1 else 0)"

interpretation ping_service: replying_service "\<lambda>node_id m. Done (Ping_call node_id m)" reply_rank
proof unfold_locales
  fix node_id m m'
  assume "Done (Ping_call node_id m) = Done (Inr (Some m'))"
  then show "reply_rank m' < reply_rank m"
    by (induction node_id m rule: Ping_call.induct) (auto simp: message_defs split: if_splits)
qed

interpretation handshake_service:
  replying_service "\<lambda>node_id m. Done (Handshake_call node_id m)" reply_rank
proof unfold_locales
  fix node_id m m'
  assume "Done (Handshake_call node_id m) = Done (Inr (Some m'))"
  then show "reply_rank m' < reply_rank m"
    by (induction node_id m rule: Handshake_call.induct) (auto split: if_splits)
qed

text \<open>A heartbeat is only quenched by a reply that names its sender, so the node id must not be
  empty.\<close>

interpretation heartbeat_service:
  replying_service "\<lambda>(now, c, cs) m. Done (Heartbeat_call now (c # cs) m)" reply_rank
proof unfold_locales
  fix e :: "SystemTime \<times> char \<times> string" and m m'
  assume "(case e of (now, c, cs) \<Rightarrow> \<lambda>m. Done (Heartbeat_call now (c # cs) m)) m = Done (Inr (Some m'))"
  then obtain now c cs where "Heartbeat_call now (c # cs) m = Inr (Some m')"
    by (cases e) auto
  then show "reply_rank m' < reply_rank m"
    by (cases "(now, c # cs, m)" rule: Heartbeat_call.cases) (auto split: if_splits)
qed

lemma Membership_call_reply:
  "Membership_call e node_id st m = Done (Inr (Some m')) \<longleftrightarrow>
     (\<exists>q l. m = UnicastMessage (Membership q) \<and> ms_message q = None
        \<and> MembershipHandle_get_members (membership_handle st) (env_chan e) = Done (Inr l)
        \<and> m' = Message_from_Membership \<lparr>ms_sender_id = ms_sender_id q, ms_message = Some (hm_keys l)\<rparr>)"
  by (cases "(e, node_id, st, m)" rule: Membership_call.cases)
    (auto simp: bind_outcome_Done split: option.splits)

interpretation membership_service:
  replying_service "\<lambda>(e, node_id, st). Membership_call e node_id st" reply_rank
  by unfold_locales (auto simp: Membership_call_reply message_defs)

interpretation round_one_service:
  replying_service "\<lambda>(e, node_id, st). RoundOnePackage_call e node_id st" reply_rank
proof unfold_locales
  fix x :: "env \<times> string \<times> State" and m m'
  assume "(case x of (e, node_id, st) \<Rightarrow> RoundOnePackage_call e node_id st) m = Done (Inr (Some m'))"
  then obtain e node_id st where "RoundOnePackage_call e node_id st m = Done (Inr (Some m'))"
    by (cases x) auto
  then show "reply_rank m' < reply_rank m"
    by (cases "(e, node_id, st, m)" rule: RoundOnePackage_call.cases)
      (auto simp: bind_outcome_Done)
qed

lemma Protocol_call_rank:
  assumes "Protocol_call e p m = Done (Inr (Some m'))" and "protocol_node_id p \<noteq> ''''"
  shows "reply_rank m' < reply_rank m"
proof -
  obtain c cs where id: "protocol_node_id p = c # cs"
    using assms(2) by (cases "protocol_node_id p") auto
  show ?thesis
    using assms(1)
    by (cases "(e, p, m)" rule: Protocol_call.cases)
      (use ping_service.reply_rank handshake_service.reply_rank
        heartbeat_service.reply_rank [of "(env_now e, c, cs)"]
        membership_service.reply_rank [of "(e, protocol_node_id p, protocol_state p)"]
        round_one_service.reply_rank [of "(e, protocol_node_id p, protocol_state p)"]
        in \<open>auto simp: id simp del: Ping_call.simps Handshake_call.simps Heartbeat_call.simps
          Membership_call.simps RoundOnePackage_call.simps reply_rank.simps\<close>)
qed

interpretation protocol_service:
  replying_service "\<lambda>(e, c, cs, st). Protocol_call e (Protocol_new (c # cs) st)" reply_rank
  by unfold_locales (auto simp: Protocol_new_def intro: Protocol_call_rank)

lemma reply_rank_le_2: "reply_rank m \<le> 2"
  by (cases m rule: reply_rank.cases) auto

section \<open>Properties\<close>

text \<open>C13. No exchange goes on for ever: when nodes with non-empty ids answer each other's messages
  through the dispatcher, in any environment and with any membership, a message is followed by
  at most two replies.\<close>

theorem protocol_exchange_ends:
  assumes "successively
      (\<lambda>m m'. \<exists>e c cs st. Protocol_call e (Protocol_new (c # cs) st) m = Done (Inr (Some m'))) ms"
  shows "length ms \<le> 3"
proof (cases ms)
  case (Cons m rest)
  have "successively (\<lambda>m m'. \<exists>x. (\<lambda>(e, c, cs, st). Protocol_call e (Protocol_new (c # cs) st)) x m
      = Done (Inr (Some m'))) ms"
    using assms by (rule successively_mono) auto
  then have "length rest \<le> reply_rank m"
    unfolding Cons by (rule protocol_service.exchange_bounded)
  with reply_rank_le_2 [of m] show ?thesis by (simp add: Cons)
qed simp

theorem protocol_exchange_ends_witness:
  "length [Message_from_Handshake HandshakeMessage_default,
      UnicastMessage (Handshake (HandshakeMessage_new ''a'' ''helo'' ''0.1.0'')),
      UnicastMessage (Handshake (HandshakeMessage_new ''b'' ''oleh'' ''0.1.0''))] \<le> 3"
proof (rule protocol_exchange_ends)
  have "\<exists>e c cs st. Protocol_call e (Protocol_new (c # cs) st)
      (Message_from_Handshake HandshakeMessage_default)
      = Done (Inr (Some (UnicastMessage (Handshake (HandshakeMessage_new ''a'' ''helo'' ''0.1.0'')))))"
    by (rule exI, rule exI [of _ "CHR ''a''"], rule exI [of _ "[]"])
      (simp add: message_defs Protocol_new_def)
  moreover have "\<exists>e c cs st. Protocol_call e (Protocol_new (c # cs) st)
      (UnicastMessage (Handshake (HandshakeMessage_new ''a'' ''helo'' ''0.1.0'')))
      = Done (Inr (Some (UnicastMessage (Handshake (HandshakeMessage_new ''b'' ''oleh'' ''0.1.0'')))))"
    by (rule exI, rule exI [of _ "CHR ''b''"], rule exI [of _ "[]"])
      (simp add: message_defs Protocol_new_def)
  ultimately show "successively
      (\<lambda>m m'. \<exists>e c cs st. Protocol_call e (Protocol_new (c # cs) st) m = Done (Inr (Some m')))
      [Message_from_Handshake HandshakeMessage_default,
       UnicastMessage (Handshake (HandshakeMessage_new ''a'' ''helo'' ''0.1.0'')),
       UnicastMessage (Handshake (HandshakeMessage_new ''b'' ''oleh'' ''0.1.0''))]"
    by simp
qed

end
