(* ===== verification/Noise.thy ===== *)
theory Noise
  imports Prelude
begin

text \<open>
  \<open>src/src/node/noise_handler.rs\<close>: the Noise handshake and transport of a connection. The crates
  \<open>ed25519_dalek\<close> and \<open>snow\<close> are parameters (\<open>noise_crates\<close>). A call of \<open>snow\<close> that fills a buffer
  of \<open>k\<close> bytes is a function of the state, the input and \<open>k\<close>; it returns what it wrote at the
  start of the buffer, the length it reports and its new state.

  The trait \<open>NoiseIO\<close> is a record of operations, so the handshake is, as in the code, generic in
  the implementation. The locale \<open>noise_channel\<close> is what the connection relies on: the
  handshake of three messages succeeds, and what one end encrypts the other decrypts, in order.
  It is interpreted on \<open>NoiseHandler\<close>; there the laws rest on the documented behaviour of \<open>snow\<close>
  (\<open>snow_transport\<close>, \<open>snow_handshake\<close>).
\<close>

section \<open>The crates\<close>

record ('k, 'p, 'h, 't) noise_crates =
  from_pkcs8_pem :: "string \<Rightarrow> string + 'k"
  to_keypair_bytes :: "'k \<Rightarrow> bytes"
  parse_pattern :: "string \<Rightarrow> string + 'p"
  build_initiator :: "'p \<Rightarrow> bytes \<Rightarrow> string + 'h"
  build_responder :: "'p \<Rightarrow> bytes \<Rightarrow> string + 'h"
  into_transport_mode :: "'h \<Rightarrow> string + 't"
  handshake_write :: "'h \<Rightarrow> bytes \<Rightarrow> nat \<Rightarrow> string + bytes \<times> nat \<times> 'h"
  handshake_read :: "'h \<Rightarrow> bytes \<Rightarrow> nat \<Rightarrow> string + bytes \<times> nat \<times> 'h"
  transport_write :: "'t \<Rightarrow> bytes \<Rightarrow> nat \<Rightarrow> string + bytes \<times> nat \<times> 't"
  transport_read :: "'t \<Rightarrow> bytes \<Rightarrow> nat \<Rightarrow> string + bytes \<times> nat \<times> 't"

definition PATTERN :: string where
  "PATTERN = ''Noise_XX_25519_ChaChaPoly_SHA256''"

definition NOISE_MAX_MSG_LENGTH :: nat where
  "NOISE_MAX_MSG_LENGTH = 65535"

definition SECRET_KEY_LENGTH :: nat where
  "SECRET_KEY_LENGTH = 32"

record Keypair =
  private_key :: bytes
  public_key :: bytes

definition build_keypair ::
  "('k, 'p, 'h, 't) noise_crates \<Rightarrow> string \<Rightarrow> (string + Keypair) outcome" where
  "build_keypair c pem =
     bind_outcome (unwrap_result (from_pkcs8_pem c pem)) (\<lambda>decoded.
       let keypair_bytes = to_keypair_bytes c decoded
       in Done (Inr \<lparr>private_key = take SECRET_KEY_LENGTH keypair_bytes,
                     public_key = drop SECRET_KEY_LENGTH keypair_bytes\<rparr>))"

section \<open>The trait and the handler\<close>

record 'n NoiseIO =
  noise_new :: "bool \<Rightarrow> string \<Rightarrow> 'n outcome"
  start_transport :: "'n \<Rightarrow> 'n outcome"
  build_handshake_message :: "'n \<Rightarrow> bytes \<Rightarrow> (bytes \<times> 'n) outcome"
  read_handshake_message :: "'n \<Rightarrow> bytes \<Rightarrow> (bytes \<times> 'n) outcome"
  build_transport_message :: "'n \<Rightarrow> bytes \<Rightarrow> (bytes \<times> 'n) outcome"
  read_transport_message :: "'n \<Rightarrow> bytes \<Rightarrow> (bytes \<times> 'n) outcome"

record ('h, 't) NoiseHandler =
  handshake_state :: "'h option"
  transport_state :: "'t option"
  noise_initiator :: bool

text \<open>The buffer of every operation: an array of zeros, the first \<open>k\<close> bytes of which are lent to
  the crate (\<open>&mut buf\<close>, or \<open>&mut buf[..msg.len()]\<close>, which panics past the end); then
  \<open>Bytes::from_iter(buf).slice(0..len)\<close>, which panics too if the length reported is too large.\<close>

definition copy_into :: "bytes \<Rightarrow> bytes \<Rightarrow> bytes" where
  "copy_into buf xs = take (length buf) (xs @ drop (length xs) buf)"

definition slice_to :: "nat \<Rightarrow> bytes \<Rightarrow> bytes outcome" where
  "slice_to n b = (if n \<le> length b then Done (take n b) else Panicked)"

definition through_buffer ::
  "nat \<Rightarrow> (nat \<Rightarrow> string + bytes \<times> nat \<times> 's) \<Rightarrow> (bytes \<times> 's) outcome" where
  "through_buffer k call =
     (if NOISE_MAX_MSG_LENGTH < k then Panicked
      else bind_outcome (unwrap_result (call k)) (\<lambda>(written, len, s).
        bind_outcome
          (slice_to len (copy_into (replicate k 0) written @ replicate (NOISE_MAX_MSG_LENGTH - k) 0))
          (\<lambda>b. Done (b, s))))"

definition NoiseHandler_new ::
  "('k, 'p, 'h, 't) noise_crates \<Rightarrow> bool \<Rightarrow> string \<Rightarrow> ('h, 't) NoiseHandler outcome" where
  "NoiseHandler_new c init pem_key =
     bind_outcome (unwrap_result (parse_pattern c PATTERN)) (\<lambda>parsed_pattern.
     bind_outcome (build_keypair c pem_key) (\<lambda>r.
     bind_outcome (unwrap_result r) (\<lambda>keypair.
     bind_outcome (unwrap_result
         (if init then build_initiator c parsed_pattern (private_key keypair)
          else build_responder c parsed_pattern (private_key keypair))) (\<lambda>h.
       Done \<lparr>handshake_state = Some h, transport_state = None, noise_initiator = init\<rparr>))))"

definition NoiseHandler_start_transport ::
  "('k, 'p, 'h, 't) noise_crates \<Rightarrow> ('h, 't) NoiseHandler \<Rightarrow> ('h, 't) NoiseHandler outcome" where
  "NoiseHandler_start_transport c n =
     bind_outcome (unwrap (handshake_state n)) (\<lambda>state.
     bind_outcome (unwrap_result (into_transport_mode c state)) (\<lambda>t.
       Done (n\<lparr>handshake_state := None, transport_state := Some t\<rparr>)))"

definition NoiseHandler_build_handshake_message ::
  "('k, 'p, 'h, 't) noise_crates \<Rightarrow> ('h, 't) NoiseHandler \<Rightarrow> bytes
    \<Rightarrow> (bytes \<times> ('h, 't) NoiseHandler) outcome" where
  "NoiseHandler_build_handshake_message c n message =
     bind_outcome (unwrap (handshake_state n)) (\<lambda>h.
     bind_outcome (through_buffer NOISE_MAX_MSG_LENGTH (handshake_write c h message)) (\<lambda>(b, h').
       Done (b, n\<lparr>handshake_state := Some h'\<rparr>)))"

definition NoiseHandler_read_handshake_message ::
  "('k, 'p, 'h, 't) noise_crates \<Rightarrow> ('h, 't) NoiseHandler \<Rightarrow> bytes
    \<Rightarrow> (bytes \<times> ('h, 't) NoiseHandler) outcome" where
  "NoiseHandler_read_handshake_message c n msg =
     bind_outcome (unwrap (handshake_state n)) (\<lambda>h.
     bind_outcome (through_buffer (length msg) (handshake_read c h msg)) (\<lambda>(b, h').
       Done (b, n\<lparr>handshake_state := Some h'\<rparr>)))"

definition NoiseHandler_build_transport_message ::
  "('k, 'p, 'h, 't) noise_crates \<Rightarrow> ('h, 't) NoiseHandler \<Rightarrow> bytes
    \<Rightarrow> (bytes \<times> ('h, 't) NoiseHandler) outcome" where
  "NoiseHandler_build_transport_message c n message =
     bind_outcome (unwrap (transport_state n)) (\<lambda>t.
     bind_outcome (through_buffer NOISE_MAX_MSG_LENGTH (transport_write c t message)) (\<lambda>(b, t').
       Done (b, n\<lparr>transport_state := Some t'\<rparr>)))"

definition NoiseHandler_read_transport_message ::
  "('k, 'p, 'h, 't) noise_crates \<Rightarrow> ('h, 't) NoiseHandler \<Rightarrow> bytes
    \<Rightarrow> (bytes \<times> ('h, 't) NoiseHandler) outcome" where
  "NoiseHandler_read_transport_message c n msg =
     bind_outcome (unwrap (transport_state n)) (\<lambda>t.
     bind_outcome (through_buffer (length msg) (transport_read c t msg)) (\<lambda>(b, t').
       Done (b, n\<lparr>transport_state := Some t'\<rparr>)))"

definition NoiseHandler_io :: "('k, 'p, 'h, 't) noise_crates \<Rightarrow> ('h, 't) NoiseHandler NoiseIO" where
  "NoiseHandler_io c =
     \<lparr>noise_new = NoiseHandler_new c,
      start_transport = NoiseHandler_start_transport c,
      build_handshake_message = NoiseHandler_build_handshake_message c,
      read_handshake_message = NoiseHandler_read_handshake_message c,
      build_transport_message = NoiseHandler_build_transport_message c,
      read_transport_message = NoiseHandler_read_transport_message c\<rparr>"

lemma NoiseHandler_io_simps [simp]:
  "noise_new (NoiseHandler_io c) = NoiseHandler_new c"
  "start_transport (NoiseHandler_io c) = NoiseHandler_start_transport c"
  "build_handshake_message (NoiseHandler_io c) = NoiseHandler_build_handshake_message c"
  "read_handshake_message (NoiseHandler_io c) = NoiseHandler_read_handshake_message c"
  "build_transport_message (NoiseHandler_io c) = NoiseHandler_build_transport_message c"
  "read_transport_message (NoiseHandler_io c) = NoiseHandler_read_transport_message c"
  by (simp_all add: NoiseHandler_io_def)

section \<open>The handshake\<close>

text \<open>A framed reader: the items that arrive, and whether the stream ends after them. With
  nothing left and the stream open, \<open>next\<close> waits.\<close>

type_synonym reader = "(string + bytes) list \<times> bool"

text \<open>\<open>reader.next().await.unwrap().unwrap()\<close>\<close>

fun next_frame :: "reader \<Rightarrow> (bytes \<times> reader) outcome" where
  "next_frame ([], ended) = (if ended then Panicked else Blocked)"
| "next_frame (Inl e # fs, ended) = Panicked"
| "next_frame (Inr b # fs, ended) = Done (b, fs, ended)"

definition bytes_of :: "string \<Rightarrow> bytes" where
  "bytes_of s = map of_char s"

text \<open>A framed writer, by whether sending a frame on it ever returns. The trace is what is given to it;
  the result of \<open>writer.send\<close> is ignored.\<close>

type_synonym writer = "bytes \<Rightarrow> bool"

definition write_frame :: "writer \<Rightarrow> bytes \<Rightarrow> (bytes, unit) traced" where
  "write_frame wr m = emit m (if wr m then Done () else Blocked)"

definition initiator_handshake :: "'n NoiseIO \<Rightarrow> 'n \<Rightarrow> reader \<Rightarrow> writer \<Rightarrow> (bytes, 'n \<times> reader) traced" where
  "initiator_handshake io noise rd wr =
     trace_bind (untraced (build_handshake_message io noise (bytes_of ''1''))) (\<lambda>(m1, noise).
     trace_bind (write_frame wr m1) (\<lambda>_.
     trace_bind (untraced (next_frame rd)) (\<lambda>(m2, rd).
     trace_bind (untraced (read_handshake_message io noise m2)) (\<lambda>(_, noise).
     trace_bind (untraced (build_handshake_message io noise (bytes_of ''-> s, se''))) (\<lambda>(m3, noise).
     trace_bind (write_frame wr m3) (\<lambda>_.
     untraced (Done (noise, rd))))))))"

definition responder_handshake :: "'n NoiseIO \<Rightarrow> 'n \<Rightarrow> reader \<Rightarrow> writer \<Rightarrow> (bytes, 'n \<times> reader) traced" where
  "responder_handshake io noise rd wr =
     trace_bind (untraced (next_frame rd)) (\<lambda>(m1, rd).
     trace_bind (untraced (read_handshake_message io noise m1)) (\<lambda>(_, noise).
     trace_bind (untraced (build_handshake_message io noise (bytes_of ''<- e, ee, s, es''))) (\<lambda>(m2, noise).
     trace_bind (write_frame wr m2) (\<lambda>_.
     trace_bind (untraced (next_frame rd)) (\<lambda>(m3, rd).
     trace_bind (untraced (read_handshake_message io noise m3)) (\<lambda>(_, noise).
     untraced (Done (noise, rd))))))))"

definition run_handshake :: "'n NoiseIO \<Rightarrow> 'n \<Rightarrow> bool \<Rightarrow> reader \<Rightarrow> writer \<Rightarrow> (bytes, 'n \<times> reader) traced" where
  "run_handshake io noise init rd wr =
     trace_bind (if init then initiator_handshake io noise rd wr else responder_handshake io noise rd wr)
       (\<lambda>(noise, rd).
     trace_bind (untraced (start_transport io noise)) (\<lambda>noise.
     untraced (Done (noise, rd))))"

text \<open>A stream that takes every frame.\<close>

abbreviation takes_all :: writer where
  "takes_all \<equiv> \<lambda>_. True"

section \<open>What a connection relies on\<close>

text \<open>What a sender has encrypted from a state on: its payloads with their frames, in order.
  Frames it reads in between are its own business.\<close>

inductive produces :: "'n NoiseIO \<Rightarrow> 'n \<Rightarrow> (bytes \<times> bytes) list \<Rightarrow> bool" for io where
  produces_nil: "produces io s []"
| produces_write: "build_transport_message io s m = Done (c, s') \<Longrightarrow> produces io s' q \<Longrightarrow>
    produces io s ((m, c) # q)"
| produces_read: "read_transport_message io s c = Done (m, s') \<Longrightarrow> produces io s' q \<Longrightarrow>
    produces io s q"

locale noise_channel =
  fixes io :: "'n NoiseIO"
    and shaking :: "nat \<Rightarrow> 'n \<Rightarrow> 'n \<Rightarrow> bool"
    and paired :: "'n \<Rightarrow> 'n \<Rightarrow> bool"
  assumes shake: "shaking k s r \<Longrightarrow> k < 3 \<Longrightarrow> length m \<le> 32 \<Longrightarrow>
        \<exists>c s' r'. build_handshake_message io s m = Done (c, s')
          \<and> read_handshake_message io r c = Done (m, r') \<and> shaking (Suc k) r' s'"
    and shaken: "shaking 3 r s \<Longrightarrow>
        \<exists>r' s'. start_transport io r = Done r' \<and> start_transport io s = Done s'
          \<and> paired r' s' \<and> paired s' r'"
    and transport: "paired s r \<Longrightarrow> build_transport_message io s m = Done (c, s') \<Longrightarrow>
        \<exists>r'. read_transport_message io r c = Done (m, r') \<and> paired s' r'"
    and sender_reads: "paired s r \<Longrightarrow> read_transport_message io s c = Done (m, s') \<Longrightarrow> paired s' r"
    and receiver_writes: "paired s r \<Longrightarrow> build_transport_message io r m = Done (c, r') \<Longrightarrow> paired s r'"
begin

lemma handshake_runs:
  assumes "shaking 0 i r"
  shows "\<exists>m1 m2 m3 i' r'.
     run_handshake io i True ([Inr m2], ended) takes_all = ([m1, m3], Done (i', [], ended))
     \<and> run_handshake io r False ([Inr m1, Inr m3], ended) takes_all = ([m2], Done (r', [], ended))
     \<and> paired i' r' \<and> paired r' i'"
proof -
  let ?p1 = "bytes_of ''1''" and ?p2 = "bytes_of ''<- e, ee, s, es''" and ?p3 = "bytes_of ''-> s, se''"
  have small: "length ?p1 \<le> 32" "length ?p2 \<le> 32" "length ?p3 \<le> 32"
    by (simp_all add: bytes_of_def)
  from shake [OF assms _ small(1)] obtain m1 i1 r1
    where 1: "build_handshake_message io i ?p1 = Done (m1, i1)"
      "read_handshake_message io r m1 = Done (?p1, r1)" "shaking 1 r1 i1" by auto
  from shake [OF 1(3) _ small(2)] obtain m2 r2 i2
    where 2: "build_handshake_message io r1 ?p2 = Done (m2, r2)"
      "read_handshake_message io i1 m2 = Done (?p2, i2)" "shaking 2 i2 r2" by (auto simp: numeral_2_eq_2)
  from shake [OF 2(3) _ small(3)] obtain m3 i3 r3
    where 3: "build_handshake_message io i2 ?p3 = Done (m3, i3)"
      "read_handshake_message io r2 m3 = Done (?p3, r3)" "shaking 3 r3 i3" by (auto simp: numeral_3_eq_3)
  from shaken [OF 3(3)] obtain r' i'
    where 4: "start_transport io r3 = Done r'" "start_transport io i3 = Done i'"
      "paired r' i'" "paired i' r'" by blast
  have "run_handshake io i True ([Inr m2], ended) takes_all = ([m1, m3], Done (i', [], ended))"
    by (simp add: run_handshake_def initiator_handshake_def 1 2 3 4) (simp add: write_frame_def emit_def untraced_def 4)
  moreover have "run_handshake io r False ([Inr m1, Inr m3], ended) takes_all = ([m2], Done (r', [], ended))"
    by (simp add: run_handshake_def responder_handshake_def 1 2 3 4) (simp add: write_frame_def emit_def untraced_def 4)
  ultimately show ?thesis using 4(3,4) by blast
qed

text \<open>The receiver decrypts the next frame in flight, whatever the sender has done since.\<close>

lemma next_in_flight:
  assumes "produces io s q" and "q = (m, c) # q'" and "paired s r"
  shows "\<exists>s' r'. read_transport_message io r c = Done (m, r') \<and> paired s' r' \<and> produces io s' q'"
  using assms
proof (induction rule: produces.induct)
  case (produces_write s m\<^sub>1 c\<^sub>1 s' q\<^sub>1)
  then show ?case using transport by blast
next
  case (produces_read s c\<^sub>1 m\<^sub>1 s' q\<^sub>1)
  then show ?case using sender_reads by blast
qed simp

end

section \<open>The handler keeps the contract\<close>

text \<open>What the documentation of \<open>snow\<close> says of a \<open>TransportState\<close>: it consists of two cipher
  states, \<open>send_half\<close> and \<open>receive_half\<close>. Writing uses and advances only the first and appends a
  16-byte tag, within the buffer; a state whose receiving half is the writer's sending half
  decrypts the message and follows. Reading advances only the receiving half.\<close>

definition snow_transport ::
  "('k, 'p, 'h, 't) noise_crates \<Rightarrow> ('t \<Rightarrow> 'c) \<Rightarrow> ('t \<Rightarrow> 'c) \<Rightarrow> bool" where
  "snow_transport c send_half receive_half \<longleftrightarrow>
     (\<forall>s m k w n s'. transport_write c s m k = Inr (w, n, s') \<longrightarrow>
        n = length w \<and> n = length m + 16 \<and> n \<le> k \<and> receive_half s' = receive_half s
        \<and> (\<forall>r. receive_half r = send_half s \<longrightarrow>
             (\<exists>r'. transport_read c r w n = Inr (m, length m, r') \<and> receive_half r' = send_half s')))
     \<and> (\<forall>s w k m n s'. transport_read c s w k = Inr (m, n, s') \<longrightarrow> send_half s' = send_half s)"

text \<open>What the code relies on when it writes: a transport state encrypts every payload that fits,
  as long as it has nonces left. \<open>budget k t\<close> says that \<open>t\<close> can write \<open>k\<close> more messages.\<close>

definition snow_writes :: "('k, 'p, 'h, 't) noise_crates \<Rightarrow> (nat \<Rightarrow> 't \<Rightarrow> bool) \<Rightarrow> bool" where
  "snow_writes c budget \<longleftrightarrow> (\<forall>k t p. budget (Suc k) t \<and> length p + 16 \<le> NOISE_MAX_MSG_LENGTH \<longrightarrow>
     (\<exists>w n t'. transport_write c t p NOISE_MAX_MSG_LENGTH = Inr (w, n, t') \<and> budget k t'))"

text \<open>And of a \<open>HandshakeState\<close> for the pattern \<open>XX\<close>: a fresh initiator and a fresh responder
  exchange three messages, starting with the initiator, each of which carries a short payload;
  then both enter transport mode, each sending what the other receives. \<open>stage k s r\<close> says that
  \<open>k\<close> messages have passed and \<open>s\<close> writes the next one to \<open>r\<close>.\<close>

definition snow_handshake ::
  "('k, 'p, 'h, 't) noise_crates \<Rightarrow> (nat \<Rightarrow> 'h \<Rightarrow> 'h \<Rightarrow> bool) \<Rightarrow> ('t \<Rightarrow> 'c) \<Rightarrow> ('t \<Rightarrow> 'c) \<Rightarrow> bool" where
  "snow_handshake c stage send_half receive_half \<longleftrightarrow>
     (\<forall>p sk sk' i r. parse_pattern c PATTERN = Inr p \<and> build_initiator c p sk = Inr i
        \<and> build_responder c p sk' = Inr r \<longrightarrow> stage 0 i r)
     \<and> (\<forall>k s r m. stage k s r \<and> k < 3 \<and> length m \<le> 32 \<longrightarrow>
          (\<exists>w s' r'. handshake_write c s m NOISE_MAX_MSG_LENGTH = Inr (w, length w, s')
             \<and> length m \<le> length w \<and> length w \<le> NOISE_MAX_MSG_LENGTH
             \<and> handshake_read c r w (length w) = Inr (m, length m, r') \<and> stage (Suc k) r' s'))
     \<and> (\<forall>r s. stage 3 r s \<longrightarrow>
          (\<exists>tr ts. into_transport_mode c r = Inr tr \<and> into_transport_mode c s = Inr ts
             \<and> receive_half tr = send_half ts \<and> receive_half ts = send_half tr))"

text \<open>Two handlers in the middle of a handshake, and two handlers the second of which can read
  what the first writes next.\<close>

definition handlers_shaking ::
  "('k, 'p, 'h, 't) noise_crates \<Rightarrow> (nat \<Rightarrow> 'h \<Rightarrow> 'h \<Rightarrow> bool) \<Rightarrow> ('t \<Rightarrow> 'c) \<Rightarrow> ('t \<Rightarrow> 'c)
    \<Rightarrow> nat \<Rightarrow> ('h, 't) NoiseHandler \<Rightarrow> ('h, 't) NoiseHandler \<Rightarrow> bool" where
  "handlers_shaking c stage sh rh k s r \<longleftrightarrow>
     snow_handshake c stage sh rh \<and> snow_transport c sh rh
     \<and> (\<exists>hs hr. handshake_state s = Some hs \<and> handshake_state r = Some hr \<and> stage k hs hr)"

definition handlers_paired ::
  "('k, 'p, 'h, 't) noise_crates \<Rightarrow> ('t \<Rightarrow> 'c) \<Rightarrow> ('t \<Rightarrow> 'c)
    \<Rightarrow> ('h, 't) NoiseHandler \<Rightarrow> ('h, 't) NoiseHandler \<Rightarrow> bool" where
  "handlers_paired c sh rh s r \<longleftrightarrow>
     snow_transport c sh rh
     \<and> (\<exists>ts tr. transport_state s = Some ts \<and> transport_state r = Some tr \<and> rh tr = sh ts)"

named_theorems noise_defs

lemmas [noise_defs] =
  NoiseHandler_start_transport_def NoiseHandler_build_handshake_message_def
  NoiseHandler_read_handshake_message_def NoiseHandler_build_transport_message_def
  NoiseHandler_read_transport_message_def NoiseHandler_io_def

lemma length_copy_into [simp]: "length (copy_into buf xs) = length buf"
  by (simp add: copy_into_def)

lemma through_buffer_Done:
  assumes "through_buffer k call = Done (b, s)"
  obtains written n where "call k = Inr (written, n, s)" and "k \<le> NOISE_MAX_MSG_LENGTH"
    and "length b = n" and "n \<le> NOISE_MAX_MSG_LENGTH"
    and "n \<le> k \<Longrightarrow> n = length written \<Longrightarrow> b = written"
proof -
  from assms obtain written n where 1: "call k = Inr (written, n, s)" "k \<le> NOISE_MAX_MSG_LENGTH"
    and 2: "slice_to n (copy_into (replicate k 0) written @ replicate (NOISE_MAX_MSG_LENGTH - k) 0) = Done b"
    by (auto simp: through_buffer_def bind_outcome_Done split: if_splits)
  from 2 1(2) have "length b = n" "n \<le> NOISE_MAX_MSG_LENGTH"
    by (auto simp: slice_to_def split: if_splits)
  moreover from 2 have "n \<le> k \<Longrightarrow> n = length written \<Longrightarrow> b = written"
    by (auto simp: slice_to_def copy_into_def split: if_splits)
  ultimately show ?thesis using 1 that by blast
qed

lemma through_buffer_fits:
  assumes "call k = Inr (written, length written, s)" and "length written \<le> k"
    and "k \<le> NOISE_MAX_MSG_LENGTH"
  shows "through_buffer k call = Done (written, s)"
  using assms by (simp add: through_buffer_def slice_to_def copy_into_def)

lemma through_buffer_not_Blocked [simp]: "through_buffer k call \<noteq> Blocked"
  by (cases "call k") (auto simp: through_buffer_def slice_to_def split: if_splits)

lemma handler_write_Done:
  assumes "NoiseHandler_build_transport_message c s m = Done (b, s')"
  obtains t w n t' where "transport_state s = Some t"
    and "transport_write c t m NOISE_MAX_MSG_LENGTH = Inr (w, n, t')" and "length b = n"
    and "n = length w \<Longrightarrow> b = w" and "n \<le> NOISE_MAX_MSG_LENGTH"
    and "s' = s\<lparr>transport_state := Some t'\<rparr>"
  using assms
  by (auto simp: noise_defs bind_outcome_Done elim!: through_buffer_Done)

lemma handler_read_Done:
  assumes "NoiseHandler_read_transport_message c s b = Done (m, s')"
  obtains t w n t' where "transport_state s = Some t"
    and "transport_read c t b (length b) = Inr (w, n, t')"
    and "s' = s\<lparr>transport_state := Some t'\<rparr>"
  using assms
  by (auto simp: noise_defs bind_outcome_Done elim!: through_buffer_Done)

lemma snow_transport_write:
  assumes "snow_transport c sh rh" and "transport_write c s m k = Inr (w, n, s')"
  shows "n = length w" "n = length m + 16" "n \<le> k" "rh s' = rh s"
    "rh r = sh s \<Longrightarrow> \<exists>r'. transport_read c r w n = Inr (m, length m, r') \<and> rh r' = sh s'"
  using assms unfolding snow_transport_def by blast+

lemma snow_transport_read:
  assumes "snow_transport c sh rh" and "transport_read c s w k = Inr (m, n, s')"
  shows "sh s' = sh s"
  using assms unfolding snow_transport_def by blast

lemma handler_writes:
  assumes "snow_writes c budget" and "snow_transport c sh rh" and "transport_state n = Some t"
    and "budget (Suc k) t" and "length p + 16 \<le> NOISE_MAX_MSG_LENGTH"
  shows "\<exists>f t'. NoiseHandler_build_transport_message c n p = Done (f, n\<lparr>transport_state := Some t'\<rparr>) \<and> budget k t'"
proof -
  from assms(1,4,5) obtain w l t' where w: "transport_write c t p NOISE_MAX_MSG_LENGTH = Inr (w, l, t')" "budget k t'"
    by (fastforce simp: snow_writes_def)
  with assms(2) have "l = length w" "length w \<le> NOISE_MAX_MSG_LENGTH" by (auto dest: snow_transport_write)
  with w assms(3) through_buffer_fits [of "transport_write c t p" NOISE_MAX_MSG_LENGTH w t'] show ?thesis
    by (auto simp: NoiseHandler_build_transport_message_def)
qed

lemma handlers_transport:
  assumes "handlers_paired c sh rh s r" and "NoiseHandler_build_transport_message c s m = Done (b, s')"
  shows "\<exists>r'. NoiseHandler_read_transport_message c r b = Done (m, r') \<and> handlers_paired c sh rh s' r'"
proof -
  from assms(1) obtain ts tr where law: "snow_transport c sh rh" and s: "transport_state s = Some ts"
    and r: "transport_state r = Some tr" and eq: "rh tr = sh ts"
    by (auto simp: handlers_paired_def)
  from assms(2) s obtain w n ts' where w: "transport_write c ts m NOISE_MAX_MSG_LENGTH = Inr (w, n, ts')"
    and b: "n = length w \<Longrightarrow> b = w" and n: "n \<le> NOISE_MAX_MSG_LENGTH"
    and s': "s' = s\<lparr>transport_state := Some ts'\<rparr>"
    by (auto elim: handler_write_Done)
  note law_w = snow_transport_write [OF law w]
  from law_w(5) [OF eq] obtain tr' where rd: "transport_read c tr w n = Inr (m, length m, tr')"
    and eq': "rh tr' = sh ts'" by blast
  have "through_buffer (length w) (transport_read c tr w) = Done (m, tr')"
    by (rule through_buffer_fits) (use law_w(1-3) n rd in auto)
  with r b law_w(1) have "NoiseHandler_read_transport_message c r b
      = Done (m, r\<lparr>transport_state := Some tr'\<rparr>)"
    by (simp add: noise_defs)
  with law eq' s' show ?thesis by (simp add: handlers_paired_def)
qed

lemma handlers_shake:
  assumes "handlers_shaking c stage sh rh k s r" and "k < 3" and "length m \<le> 32"
  shows "\<exists>b s' r'. NoiseHandler_build_handshake_message c s m = Done (b, s')
     \<and> NoiseHandler_read_handshake_message c r b = Done (m, r') \<and> handlers_shaking c stage sh rh (Suc k) r' s'"
proof -
  from assms(1) obtain hs hr where law: "snow_handshake c stage sh rh" "snow_transport c sh rh"
    and s: "handshake_state s = Some hs" and r: "handshake_state r = Some hr" and st: "stage k hs hr"
    by (auto simp: handlers_shaking_def)
  from law(1) st assms(2,3) obtain w hs' hr'
    where w: "handshake_write c hs m NOISE_MAX_MSG_LENGTH = Inr (w, length w, hs')"
      and len: "length m \<le> length w" "length w \<le> NOISE_MAX_MSG_LENGTH"
      and rd: "handshake_read c hr w (length w) = Inr (m, length m, hr')"
      and st': "stage (Suc k) hr' hs'"
    unfolding snow_handshake_def by blast
  have "through_buffer NOISE_MAX_MSG_LENGTH (handshake_write c hs m) = Done (w, hs')"
    using w len(2) by (intro through_buffer_fits) auto
  moreover have "through_buffer (length w) (handshake_read c hr w) = Done (m, hr')"
    using rd len by (intro through_buffer_fits) auto
  ultimately show ?thesis using s r law st'
    by (auto simp: noise_defs handlers_shaking_def)
qed

lemma handlers_shaken:
  assumes "handlers_shaking c stage sh rh 3 r s"
  shows "\<exists>r' s'. NoiseHandler_start_transport c r = Done r' \<and> NoiseHandler_start_transport c s = Done s'
     \<and> handlers_paired c sh rh r' s' \<and> handlers_paired c sh rh s' r'"
proof -
  from assms obtain hr hs where law: "snow_handshake c stage sh rh" "snow_transport c sh rh"
    and s: "handshake_state s = Some hs" and r: "handshake_state r = Some hr" and "stage 3 hr hs"
    by (auto simp: handlers_shaking_def)
  from law(1) this(5) obtain tr ts where "into_transport_mode c hr = Inr tr"
    "into_transport_mode c hs = Inr ts" "rh tr = sh ts" "rh ts = sh tr"
    unfolding snow_handshake_def by blast
  with s r law(2) show ?thesis by (simp add: noise_defs handlers_paired_def)
qed

interpretation nh: noise_channel "NoiseHandler_io c" "handlers_shaking c stage sh rh" "handlers_paired c sh rh"
proof (unfold_locales, unfold NoiseHandler_io_simps)
  show "\<exists>b s' r'. NoiseHandler_build_handshake_message c s m = Done (b, s')
      \<and> NoiseHandler_read_handshake_message c r b = Done (m, r') \<and> handlers_shaking c stage sh rh (Suc k) r' s'"
    if "handlers_shaking c stage sh rh k s r" and "k < 3" and "length m \<le> 32" for k s r m
    using that by (rule handlers_shake)
  show "\<exists>r' s'. NoiseHandler_start_transport c r = Done r' \<and> NoiseHandler_start_transport c s = Done s'
      \<and> handlers_paired c sh rh r' s' \<and> handlers_paired c sh rh s' r'"
    if "handlers_shaking c stage sh rh 3 r s" for r s
    using that by (rule handlers_shaken)
  show "\<exists>r'. NoiseHandler_read_transport_message c r b = Done (m, r') \<and> handlers_paired c sh rh s' r'"
    if "handlers_paired c sh rh s r" and "NoiseHandler_build_transport_message c s m = Done (b, s')"
    for s r m b s'
    using that by (rule handlers_transport)
  show "handlers_paired c sh rh s' r"
    if "handlers_paired c sh rh s r" and "NoiseHandler_read_transport_message c s b = Done (m, s')"
    for s r b m s'
    using that by (auto simp: handlers_paired_def elim!: handler_read_Done dest: snow_transport_read)
  show "handlers_paired c sh rh s r'"
    if "handlers_paired c sh rh s r" and "NoiseHandler_build_transport_message c r m = Done (b, r')"
    for s r m b r'
    using that by (auto simp: handlers_paired_def elim!: handler_write_Done dest: snow_transport_write(4))
qed

lemma fresh_handlers_shaking:
  assumes "snow_handshake c stage sh rh" and "snow_transport c sh rh"
    and "NoiseHandler_new c True pem = Done i" and "NoiseHandler_new c False pem' = Done r"
  shows "handlers_shaking c stage sh rh 0 i r"
  using assms
  by (auto simp: handlers_shaking_def NoiseHandler_new_def bind_outcome_Done snow_handshake_def)

section \<open>A concrete instance of the crates\<close>

text \<open>It satisfies the laws above and serves the concrete instances of the properties. A
  handshake state counts messages; a transport state is the pair of its message counters, and
  the tag of a message repeats the counter.\<close>

definition tag :: "nat \<Rightarrow> bytes" where
  "tag n = replicate 16 (of_nat n)"

definition counting_crates :: "(string, unit, nat, nat \<times> nat) noise_crates" where
  "counting_crates =
     \<lparr>from_pkcs8_pem = (\<lambda>pem. if pem = '''' then Inl ''no key'' else Inr pem),
      to_keypair_bytes = (\<lambda>k. replicate 64 0),
      parse_pattern = (\<lambda>p. Inr ()),
      build_initiator = (\<lambda>p k. Inr 0),
      build_responder = (\<lambda>p k. Inr 0),
      into_transport_mode = (\<lambda>h. if h = 3 then Inr (0, 0) else Inl ''handshake not finished''),
      handshake_write = (\<lambda>h m k. if length m \<le> k then Inr (m, length m, Suc h) else Inl ''input''),
      handshake_read = (\<lambda>h w k. if length w \<le> k then Inr (w, length w, Suc h) else Inl ''input''),
      transport_write = (\<lambda>(i, j) m k.
        if length m + 16 \<le> k then Inr (m @ tag i, length m + 16, (Suc i, j)) else Inl ''input''),
      transport_read = (\<lambda>(i, j) w k.
        if 16 \<le> length w \<and> length w \<le> k + 16 \<and> drop (length w - 16) w = tag j
        then Inr (take (length w - 16) w, length w - 16, (i, Suc j)) else Inl ''decrypt'')\<rparr>"

lemma length_tag [simp]: "length (tag n) = 16"
  by (simp add: tag_def)

lemma counting_transport: "snow_transport counting_crates fst snd"
  by (auto simp: snow_transport_def counting_crates_def split: if_splits)

lemma counting_handshake: "snow_handshake counting_crates (\<lambda>k s r. s = k \<and> r = k) fst snd"
  by (auto simp: snow_handshake_def counting_crates_def NOISE_MAX_MSG_LENGTH_def)

lemma counting_new:
  "NoiseHandler_new counting_crates init ''key''
     = Done \<lparr>handshake_state = Some 0, transport_state = None, noise_initiator = init\<rparr>"
  by (simp add: NoiseHandler_new_def build_keypair_def counting_crates_def)

lemma counting_into_transport: "into_transport_mode counting_crates (Suc (Suc (Suc 0))) = Inr (0, 0)"
  by (simp add: counting_crates_def numeral_3_eq_3)

lemma counting_buffers:
  "length m \<le> 65535 \<Longrightarrow>
     through_buffer NOISE_MAX_MSG_LENGTH (handshake_write counting_crates h m) = Done (m, Suc h)"
  "k = length m \<Longrightarrow> k \<le> 65535 \<Longrightarrow>
     through_buffer k (handshake_read counting_crates h m) = Done (m, Suc h)"
  "length m \<le> 65519 \<Longrightarrow>
     through_buffer NOISE_MAX_MSG_LENGTH (transport_write counting_crates (i, j) m)
       = Done (m @ tag i, (Suc i, j))"
  by (rule through_buffer_fits; simp add: counting_crates_def NOISE_MAX_MSG_LENGTH_def)+

text \<open>A payload that leaves no room for the tag.\<close>

lemma oversize_panics:
  assumes "snow_transport c sh rh" and "65519 < length m"
  shows "NoiseHandler_build_transport_message c n m = Panicked"
proof (cases "NoiseHandler_build_transport_message c n m")
  case (Done p)
  then obtain b n' where "NoiseHandler_build_transport_message c n m = Done (b, n')" by (cases p) auto
  then obtain t w k t' where w: "transport_write c t m NOISE_MAX_MSG_LENGTH = Inr (w, k, t')"
    and "k \<le> NOISE_MAX_MSG_LENGTH"
    by (rule handler_write_Done)
  with snow_transport_write(2) [OF assms(1) w] assms(2) show ?thesis
    by (simp add: NOISE_MAX_MSG_LENGTH_def)
next
  case Blocked
  then show ?thesis
    by (cases "transport_state n";
        cases "through_buffer NOISE_MAX_MSG_LENGTH (transport_write c (the (transport_state n)) m)")
      (auto simp: NoiseHandler_build_transport_message_def)
qed simp

section \<open>Sequences of operations\<close>

datatype noise_op =
    BuildHandshake bytes
  | ReadHandshake bytes
  | StartTransport
  | BuildTransport bytes
  | ReadTransport bytes

fun noise_do ::
  "('k, 'p, 'h, 't) noise_crates \<Rightarrow> ('h, 't) NoiseHandler \<Rightarrow> noise_op \<Rightarrow> ('h, 't) NoiseHandler outcome" where
  "noise_do c n (BuildHandshake m) =
     bind_outcome (NoiseHandler_build_handshake_message c n m) (\<lambda>(_, n'). Done n')"
| "noise_do c n (ReadHandshake m) =
     bind_outcome (NoiseHandler_read_handshake_message c n m) (\<lambda>(_, n'). Done n')"
| "noise_do c n StartTransport = NoiseHandler_start_transport c n"
| "noise_do c n (BuildTransport m) =
     bind_outcome (NoiseHandler_build_transport_message c n m) (\<lambda>(_, n'). Done n')"
| "noise_do c n (ReadTransport m) =
     bind_outcome (NoiseHandler_read_transport_message c n m) (\<lambda>(_, n'). Done n')"

fun noise_run ::
  "('k, 'p, 'h, 't) noise_crates \<Rightarrow> ('h, 't) NoiseHandler \<Rightarrow> noise_op list \<Rightarrow> ('h, 't) NoiseHandler outcome" where
  "noise_run c n [] = Done n"
| "noise_run c n (op # ops) = bind_outcome (noise_do c n op) (\<lambda>n'. noise_run c n' ops)"

fun is_handshake_op :: "noise_op \<Rightarrow> bool" where
  "is_handshake_op (BuildHandshake m) = True"
| "is_handshake_op (ReadHandshake m) = True"
| "is_handshake_op _ = False"

fun is_transport_op :: "noise_op \<Rightarrow> bool" where
  "is_transport_op (BuildTransport m) = True"
| "is_transport_op (ReadTransport m) = True"
| "is_transport_op _ = False"

lemma noise_run_transport:
  "handshake_state n = None \<Longrightarrow> noise_run c n ops = Done n' \<Longrightarrow> list_all is_transport_op ops"
proof (induction ops arbitrary: n)
  case (Cons op ops)
  then obtain n1 where step: "noise_do c n op = Done n1" and run: "noise_run c n1 ops = Done n'"
    by (auto simp: bind_outcome_Done)
  from step Cons.prems(1) have "is_transport_op op" "handshake_state n1 = None"
    by (cases op; auto simp: noise_defs bind_outcome_Done)+
  with Cons.IH run show ?case by simp
qed simp

section \<open>Properties\<close>

text \<open>C10. Two nodes with usable keys that run the handshake against each other, on streams that take
  the frames, both finish it:
  the initiator writes exactly two messages and the responder one, both enter transport mode,
  and from then on each decrypts what the other encrypts.\<close>

theorem handshake_pairs_handlers:
  assumes "snow_handshake c stage sh rh" and "snow_transport c sh rh"
    and "NoiseHandler_new c True pem = Done i" and "NoiseHandler_new c False pem' = Done r"
  shows "\<exists>m1 m2 m3 i' r'.
     run_handshake (NoiseHandler_io c) i True ([Inr m2], ended) takes_all = ([m1, m3], Done (i', [], ended))
     \<and> run_handshake (NoiseHandler_io c) r False ([Inr m1, Inr m3], ended) takes_all = ([m2], Done (r', [], ended))
     \<and> handlers_paired c sh rh i' r' \<and> handlers_paired c sh rh r' i'"
  using fresh_handlers_shaking [OF assms] by (rule nh.handshake_runs)

theorem handshake_pairs_handlers_witness:
  "\<exists>i r m1 m2 m3 i' r'.
     NoiseHandler_new counting_crates True ''key'' = Done i
     \<and> NoiseHandler_new counting_crates False ''key'' = Done r
     \<and> run_handshake (NoiseHandler_io counting_crates) i True ([Inr m2], False) takes_all
         = ([m1, m3], Done (i', [], False))
     \<and> run_handshake (NoiseHandler_io counting_crates) r False ([Inr m1, Inr m3], False) takes_all
         = ([m2], Done (r', [], False))
     \<and> handlers_paired counting_crates fst snd i' r'"
  using handshake_pairs_handlers [OF counting_handshake counting_transport counting_new counting_new,
      of False] counting_new
  by blast

text \<open>Every frame the handler builds, in the handshake and in transport, is at most 65535
  bytes long, so its length fits the two-byte length field of the codec. This does not depend
  on the crate: a larger reported length would panic.\<close>

lemma frames_fit_length_field:
  "(NoiseHandler_build_handshake_message c n m = Done (b, n') \<longrightarrow> length b < 2 ^ 16)
   \<and> (NoiseHandler_build_transport_message c n m = Done (b, n') \<longrightarrow> length b < 2 ^ 16)"
  by (auto simp: NoiseHandler_build_handshake_message_def NoiseHandler_build_transport_message_def
      bind_outcome_Done NOISE_MAX_MSG_LENGTH_def elim!: through_buffer_Done)

text \<open>C29. The limit of a message: a handler in transport mode with nonces left encrypts every payload
  of up to 65519 bytes into a frame that is 16 bytes longer, and so fits the two-byte length
  field, and panics on every longer one. Nothing above it splits or refuses long messages.\<close>

theorem payload_limit:
  assumes "snow_transport c sh rh" and "snow_writes c budget"
    and "transport_state n = Some t" and "budget (Suc k) t"
  shows "if length m \<le> 65519
     then \<exists>b n'. NoiseHandler_build_transport_message c n m = Done (b, n')
            \<and> length b = length m + 16 \<and> length b < 2 ^ 16
     else NoiseHandler_build_transport_message c n m = Panicked"
proof (cases "length m \<le> 65519")
  case True
  then have "length m + 16 \<le> NOISE_MAX_MSG_LENGTH" by (simp add: NOISE_MAX_MSG_LENGTH_def)
  from handler_writes [OF assms(2,1,3,4) this] obtain b n'
    where b: "NoiseHandler_build_transport_message c n m = Done (b, n')" by blast
  then obtain t w k t' where w: "transport_write c t m NOISE_MAX_MSG_LENGTH = Inr (w, k, t')" and "length b = k"
    by (rule handler_write_Done)
  with snow_transport_write(2) [OF assms(1) w] b True show ?thesis by simp
next
  case False
  with oversize_panics [OF assms(1)] show ?thesis by simp
qed

theorem payload_limit_witness:
  "NoiseHandler_build_transport_message counting_crates
     \<lparr>handshake_state = None, transport_state = Some (0, 0), noise_initiator = True\<rparr> (replicate 65520 0)
   = Panicked"
proof -
  have "snow_writes counting_crates (\<lambda>_ _. True)" by (auto simp: snow_writes_def counting_crates_def)
  from payload_limit [where n = "\<lparr>handshake_state = None, transport_state = Some (0, 0), noise_initiator = True\<rparr>"
      and t = "(0, 0)" and k = 0 and m = "replicate 65520 0", OF counting_transport this]
  show ?thesis by simp
qed

text \<open>C28. The handler enforces the order of the phases: a sequence of operations on a fresh handler
  that does not panic consists of handshake messages, then at most one switch, then transport
  messages only. In particular nothing is encrypted before the handshake is over.\<close>

theorem noise_phases:
  assumes "NoiseHandler_new c init pem = Done n" and "noise_run c n ops = Done n'"
  shows "\<exists>hs ts. list_all is_handshake_op hs \<and> list_all is_transport_op ts
     \<and> (ops = hs \<or> ops = hs @ StartTransport # ts)"
proof -
  from assms(1) have "transport_state n = None"
    by (auto simp: NoiseHandler_new_def bind_outcome_Done)
  then show ?thesis using assms(2)
  proof (induction ops arbitrary: n)
    case Nil
    show ?case by (rule exI [of _ "[]"]) (simp add: exI [of _ "[]"])
  next
    case (Cons op ops)
    then obtain n1 where step: "noise_do c n op = Done n1" and run: "noise_run c n1 ops = Done n'"
      by (auto simp: bind_outcome_Done)
    show ?case
    proof (cases "op = StartTransport")
      case True
      with step have "handshake_state n1 = None" by (auto simp: noise_defs bind_outcome_Done)
      with run True show ?thesis by (intro exI [of _ "[]"] exI [of _ ops]) (simp add: noise_run_transport)
    next
      case False
      with step Cons.prems(1) have "is_handshake_op op" "transport_state n1 = None"
        by (cases op; auto simp: noise_defs bind_outcome_Done)+
      with Cons.IH [OF _ run] obtain hs ts where "list_all is_handshake_op (op # hs)"
        and "list_all is_transport_op ts" and "ops = hs \<or> ops = hs @ StartTransport # ts" by auto
      then show ?thesis by (intro exI [of _ "op # hs"] exI [of _ ts]) auto
    qed
  qed
qed

theorem noise_phases_witness:
  "\<exists>n'. noise_run counting_crates \<lparr>handshake_state = Some 0, transport_state = None, noise_initiator = True\<rparr>
       [BuildHandshake [1], ReadHandshake [2], BuildHandshake [3], StartTransport, BuildTransport [4]] = Done n'
     \<and> (\<exists>hs ts. list_all is_handshake_op hs \<and> list_all is_transport_op ts
          \<and> ([BuildHandshake [1], ReadHandshake [2], BuildHandshake [3], StartTransport, BuildTransport [4]] = hs
             \<or> [BuildHandshake [1], ReadHandshake [2], BuildHandshake [3], StartTransport, BuildTransport [4]]
                 = hs @ StartTransport # ts))"
proof -
  let ?n = "\<lparr>handshake_state = Some 0, transport_state = None, noise_initiator = True\<rparr>
      :: (nat, nat \<times> nat) NoiseHandler"
    and ?ops = "[BuildHandshake [1], ReadHandshake [2], BuildHandshake [3], StartTransport, BuildTransport [4]]"
  have "\<exists>n'. noise_run counting_crates ?n ?ops = Done n'"
    by (simp add: noise_defs counting_buffers counting_into_transport)
  then obtain n' where run: "noise_run counting_crates ?n ?ops = Done n'" by blast
  from run noise_phases [OF counting_new run] show ?thesis by (intro exI [of _ n'] conjI)
qed

end
