(* ===== verification/ReliableSender.thy ===== *)
theory ReliableSender
  imports Actors Messages Protocols
begin

text \<open>
  \<open>src/src/node/reliable_sender/mod.rs\<close> and its \<open>service.rs\<close>: the actor that numbers the messages of
  one connection, keeps the callers that wait for an acknowledgement, acknowledges what the
  peer sends, and hands it to the client.

  The actor is driven by the branches of its \<open>select!\<close> loop, in any order. What a handler
  awaits is answered by the environment and recorded in the event: what \<open>connection_handle.send\<close>
  and \<open>client_tx.send\<close> return, or that they never do. Then the task is stuck in the handler, and
  later events stay in their queues. The sequence number is a 64-bit word; its addition wraps as
  in a release build.
\<close>

section \<open>The actor\<close>

text \<open>The enum \<open>ReliableMessage\<close>; its only variant \<open>Send\<close> carries the channel to answer on.\<close>

datatype ReliableMessage = ClientSend Message chan

text \<open>\<open>Some True\<close> is \<open>Ok\<close>, \<open>Some False\<close> is \<open>Err\<close>, and \<open>None\<close> is a call that never returns: the connection does
  not answer, or the bounded channel to the client has no room and the client takes nothing.\<close>

record rs_env =
  conn_ok :: "bool option"
  client_ok :: "bool option"

text \<open>The branches of \<open>select!\<close>: a command from a handle, a message from the connection, or
  neither channel open.\<close>

datatype rs_event =
    FromClient ReliableMessage rs_env
  | FromConnection ReliableNetworkMessage rs_env
  | BothClosed

text \<open>\<open>ToConnection x\<close> is a call of \<open>connection_handle.send(x)\<close> that was not refused, so that \<open>x\<close> may be on
  the wire; \<open>ToClient m\<close> is a message the client's channel took.\<close>

datatype rs_out = ToConnection ReliableNetworkMessage | ToClient Message

type_synonym AckWaiter = "Message \<times> chan"
type_synonym ConnectionResult = "string + unit"
type_synonym rs_effect = "(ConnectionResult, rs_out) effect"

record ReliableSenderActor =
  waiting_for_ack :: "(u64, AckWaiter) hashmap"
  sequence_number :: u64

definition ReliableSenderActor_new :: ReliableSenderActor where
  "ReliableSenderActor_new = \<lparr>waiting_for_ack = [], sequence_number = 0\<rparr>"

definition next_sequence_number :: "ReliableSenderActor \<Rightarrow> u64 \<times> ReliableSenderActor" where
  "next_sequence_number a =
     (let a' = a\<lparr>sequence_number := sequence_number a + 1\<rparr> in (sequence_number a', a'))"

text \<open>Inserting under a number that is still in use drops the old waiter. The result of
  \<open>connection_handle.send\<close> is ignored.\<close>

fun rs_handle_message ::
  "ReliableSenderActor \<Rightarrow> ReliableMessage \<Rightarrow> rs_env
    \<Rightarrow> (rs_effect, ConnectionResult \<times> ReliableSenderActor) traced" where
  "rs_handle_message a (ClientSend message respond_to) e =
     (let (n, a1) = next_sequence_number a;
          replaced = (case hm_get (waiting_for_ack a1) n of None \<Rightarrow> [] | Some (_, ch) \<Rightarrow> [DropTx ch]);
          a2 = a1\<lparr>waiting_for_ack := hm_insert n (message, respond_to) (waiting_for_ack a1)\<rparr>
      in case conn_ok e of
           None \<Rightarrow> (replaced @ [Out (ToConnection (Send message n))], Blocked)
         | Some True \<Rightarrow> (replaced @ [Out (ToConnection (Send message n))], Done (Inr (), a2))
         | Some False \<Rightarrow> (replaced, Done (Inr (), a2)))"

text \<open>The acknowledgement goes out before the message is handed to the client.\<close>

fun handle_connection_message ::
  "ReliableSenderActor \<Rightarrow> ReliableNetworkMessage \<Rightarrow> rs_env
    \<Rightarrow> (rs_effect, ConnectionResult \<times> ReliableSenderActor) traced" where
  "handle_connection_message a (Send message n) e =
     (case conn_ok e of
        None \<Rightarrow> ([Out (ToConnection (Ack n))], Blocked)
      | Some False \<Rightarrow> ([], Done (Inl ''Error sending ack'', a))
      | Some True \<Rightarrow>
          (case client_ok e of
             None \<Rightarrow> ([Out (ToConnection (Ack n))], Blocked)
           | Some False \<Rightarrow> ([Out (ToConnection (Ack n))], Done (Inr (), a))
           | Some True \<Rightarrow> ([Out (ToConnection (Ack n)), Out (ToClient message)], Done (Inr (), a))))"
| "handle_connection_message a (Ack n) e =
     (case hm_get (waiting_for_ack a) n of
        Some (_, sender) \<Rightarrow>
          ([Reply sender (Inr ())],
           Done (Inr (), a\<lparr>waiting_for_ack := hm_remove n (waiting_for_ack a)\<rparr>))
      | None \<Rightarrow> ([], Done (Inr (), a)))"

text \<open>One round of \<open>start_reliable_sender\<close>. Errors of the handlers are logged only, and the
  \<open>else\<close> branch goes round the loop again.\<close>

fun rs_step :: "(ReliableSenderActor, rs_event, ConnectionResult, rs_out) step" where
  "rs_step a (FromClient msg e) =
     trace_bind (rs_handle_message a msg e) (\<lambda>(r, a'). untraced (Done a'))"
| "rs_step a (FromConnection msg e) =
     trace_bind (handle_connection_message a msg e) (\<lambda>(r, a'). untraced (Done a'))"
| "rs_step a BothClosed = ([], Done a)"

fun rs_tx :: "rs_event \<Rightarrow> chan list" where
  "rs_tx (FromClient (ClientSend m ch) e) = [ch]"
| "rs_tx (FromConnection msg e) = []"
| "rs_tx BothClosed = []"

definition rs_held :: "ReliableSenderActor \<Rightarrow> chan list" where
  "rs_held a = map (\<lambda>(n, m, ch). ch) (waiting_for_ack a)"

definition start_reliable_sender ::
  "ReliableSenderActor task \<Rightarrow> rs_event list \<Rightarrow> rs_effect list \<times> ReliableSenderActor task" where
  "start_reliable_sender = actor_run rs_step rs_held rs_tx"

section \<open>The handle and the service\<close>

text \<open>The task \<open>ReliableSenderHandle::start\<close> spawns. The two channels it makes hold 32 messages each;
  whether the one to the client has room when the actor needs it is answered by the environment.\<close>

definition ReliableSenderHandle_start :: "ReliableSenderActor task" where
  "ReliableSenderHandle_start = Running ReliableSenderActor_new"

text \<open>What \<open>ReliableSenderHandle::send\<close> returns, given whether the command reached the actor's
  queue and what became of the caller's channel. An \<open>Err\<close> sent on the channel would count as
  success: only the \<open>RecvError\<close> is looked at.\<close>

definition ReliableSenderHandle_send :: "bool \<Rightarrow> (unit + ConnectionResult) option \<Rightarrow> ConnectionResult outcome" where
  "ReliableSenderHandle_send queued answer =
     (if \<not> queued then Done (Inl ''Error sending message to actor.'')
      else case answer of
             None \<Rightarrow> Blocked
           | Some (Inl _) \<Rightarrow> Done (Inl ''Reliable send failed on time out'')
           | Some (Inr _) \<Rightarrow> Done (Inr ()))"

definition ReliableSend_poll_ready :: "('e + unit) poll \<Rightarrow> ('b + unit) poll" where
  "ReliableSend_poll_ready inner_poll = (case inner_poll of Ready _ \<Rightarrow> Ready (Inr ()) | Pending \<Rightarrow> Pending)"

text \<open>The trace holds the message given to \<open>send\<close>.\<close>

definition ReliableSend_call ::
  "(Message \<Rightarrow> service_result outcome) \<Rightarrow> (Message \<Rightarrow> ConnectionResult outcome) \<Rightarrow> Message
    \<Rightarrow> (Message, ConnectionResult) traced" where
  "ReliableSend_call inner send msg =
     trace_bind (untraced (inner msg)) (\<lambda>response_message.
       case response_message of
         Inr (Some msg') \<Rightarrow>
           trace_bind (emit msg' (send msg')) (\<lambda>r.
           untraced (Done (if is_ok r then Inr () else Inl ''Error sending reliable message'')))
       | _ \<Rightarrow> untraced (Done (Inl ''Unknown message type in reliable sender'')))"

section \<open>The actor keeps its waiters\<close>

definition rs_wf :: "ReliableSenderActor \<Rightarrow> bool" where
  "rs_wf a = hm_wf (waiting_for_ack a)"

lemma mset_rs_held: "mset (rs_held a) = image_mset snd (hm_values (waiting_for_ack a))"
  by (simp add: rs_held_def hm_values_def case_prod_unfold multiset.map_comp comp_def)

text \<open>What a step does with each kind of event.\<close>

lemma rs_step_FromClient:
  "rs_step a (FromClient (ClientSend m ch) e) =
     ((case hm_get (waiting_for_ack a) (sequence_number a + 1) of
         None \<Rightarrow> [] | Some (_, old) \<Rightarrow> [DropTx old])
      @ (if conn_ok e = Some False then [] else [Out (ToConnection (Send m (sequence_number a + 1)))]),
      if conn_ok e = None then Blocked
      else Done (a\<lparr>sequence_number := sequence_number a + 1,
                   waiting_for_ack := hm_insert (sequence_number a + 1) (m, ch) (waiting_for_ack a)\<rparr>))"
  by (cases "conn_ok e"; cases "the (conn_ok e)") (simp_all add: next_sequence_number_def untraced_def)

lemma rs_step_Send:
  "rs_step a (FromConnection (Send m n) e) =
     ((if conn_ok e = Some False then [] else [Out (ToConnection (Ack n))])
      @ (if conn_ok e = Some True \<and> client_ok e = Some True then [Out (ToClient m)] else []),
      if conn_ok e = None \<or> conn_ok e = Some True \<and> client_ok e = None then Blocked else Done a)"
  by (cases "conn_ok e"; cases "the (conn_ok e)"; cases "client_ok e"; cases "the (client_ok e)")
    (simp_all add: untraced_def)

lemma rs_step_Ack:
  "rs_step a (FromConnection (Ack n) e) =
     (case hm_get (waiting_for_ack a) n of
        Some (_, sender) \<Rightarrow>
          ([Reply sender (Inr ())], Done (a\<lparr>waiting_for_ack := hm_remove n (waiting_for_ack a)\<rparr>))
      | None \<Rightarrow> ([], Done a))"
  by (auto simp: untraced_def split: option.split)

lemmas rs_steps [simp] = rs_step_FromClient rs_step_Send rs_step_Ack

declare rs_step.simps(1,2) [simp del]

lemma rs_event_kinds:
  obtains (client) m ch e where "ev = FromClient (ClientSend m ch) e"
  | (message) m n e where "ev = FromConnection (Send m n) e"
  | (ack) n e where "ev = FromConnection (Ack n) e"
  | (closed) "ev = BothClosed"
  by (metis ReliableMessage.exhaust ReliableNetworkMessage.exhaust rs_event.exhaust)

lemma rs_step_no_panic: "snd (rs_step a ev) \<noteq> Panicked"
  by (cases ev rule: rs_event_kinds) (auto split: option.split)

lemma rs_step_wf:
  assumes "rs_wf a" and "rs_step a ev = (es, Done a')"
  shows "rs_wf a'"
  using assms
  by (cases ev rule: rs_event_kinds) (auto simp: rs_wf_def intro: hm_wfs split: if_splits option.splits)

lemma rs_held_replaced:
  assumes "hm_get (waiting_for_ack a) n = Some (m0, ch0)"
  shows "add_mset ch0 (image_mset snd (hm_values (hm_insert n (m, ch) (waiting_for_ack a))))
     = add_mset ch (image_mset snd (hm_values (waiting_for_ack a)))"
proof -
  have "image_mset snd (add_mset (m0, ch0) (hm_values (hm_insert n (m, ch) (waiting_for_ack a))))
      = image_mset snd (add_mset (m, ch) (hm_values (waiting_for_ack a)))"
    using hm.vals_ins_replace [OF assms] by (rule arg_cong)
  then show ?thesis by simp
qed

lemma rs_held_removed:
  assumes "rs_wf a" and "hm_get (waiting_for_ack a) n = Some (m, ch)"
  shows "add_mset ch (image_mset snd (hm_values (hm_remove n (waiting_for_ack a))))
     = image_mset snd (hm_values (waiting_for_ack a))"
proof -
  have "image_mset snd (add_mset (m, ch) (hm_values (hm_remove n (waiting_for_ack a))))
      = image_mset snd (hm_values (waiting_for_ack a))"
    using hm.vals_rem_present [OF _ assms(2)] assms(1) by (simp add: rs_wf_def)
  then show ?thesis by simp
qed

lemma rs_step_conserve:
  assumes "rs_wf a" and "rs_step a ev = (es, Done a')"
  shows "consumed es + mset (rs_held a') = mset (rs_held a) + mset (rs_tx ev)"
proof (cases ev rule: rs_event_kinds)
  case (client m ch e)
  with assms(2) show ?thesis
    by (cases "hm_get (waiting_for_ack a) (sequence_number a + 1)")
      (auto simp: mset_rs_held hm.vals_ins_fresh rs_held_replaced split: if_splits)
next
  case (ack n e)
  with assms show ?thesis
    by (cases "hm_get (waiting_for_ack a) n") (auto simp: mset_rs_held rs_held_removed)
qed (use assms(2) in \<open>auto split: if_splits\<close>)

lemma rs_step_blocked:
  assumes "rs_step a ev = (es, Blocked)"
  shows "consumed es \<subseteq># mset (rs_held a)"
proof (cases ev rule: rs_event_kinds)
  case (client m ch e)
  show ?thesis
  proof (cases "hm_get (waiting_for_ack a) (sequence_number a + 1)")
    case (Some old)
    obtain m0 ch0 where old: "old = (m0, ch0)" by (cases old)
    with Some have "(m0, ch0) \<in> set (map snd (waiting_for_ack a))"
      by (force simp: hm_get_def dest: map_of_SomeD)
    then have "ch0 \<in># mset (rs_held a)" by (force simp: rs_held_def)
    with assms client Some old show ?thesis by (auto split: if_splits)
  qed (use assms client in \<open>auto split: if_splits\<close>)
qed (use assms in \<open>auto split: if_splits option.splits\<close>)

interpretation rs: oneshot_actor rs_step rs_held rs_tx rs_wf
proof unfold_locales
  fix a a' ev es
  assume "rs_wf a" and "rs_step a ev = (es, Done a')"
  then show "rs_wf a'"
    and "consumed es + mset (rs_held a') = mset (rs_held a) + mset (rs_tx ev)"
    by (rule rs_step_wf, rule rs_step_conserve)
next
  fix a ev es
  show "rs_step a ev = (es, Panicked) \<Longrightarrow> consumed es = {#}"
    using rs_step_no_panic [of a ev] by simp
  show "rs_step a ev = (es, Blocked) \<Longrightarrow> consumed es \<subseteq># mset (rs_held a) + mset (rs_tx ev)"
    using rs_step_blocked [of a ev es] by (simp add: subset_mset.add_increasing2)
qed

section \<open>Histories\<close>

text \<open>The requests of the clients, in order, and the request a sequence number stands for.\<close>

fun requests :: "rs_event list \<Rightarrow> AckWaiter list" where
  "requests [] = []"
| "requests (FromClient (ClientSend m ch) e # evs) = (m, ch) # requests evs"
| "requests (FromConnection msg e # evs) = requests evs"
| "requests (BothClosed # evs) = requests evs"

definition numbered :: "AckWaiter list \<Rightarrow> u64 \<Rightarrow> AckWaiter \<Rightarrow> bool" where
  "numbered reqs n r \<longleftrightarrow> 0 < unat n \<and> unat n \<le> length reqs \<and> reqs ! (unat n - 1) = r"

lemma requests_append [simp]: "requests (evs @ evs') = requests evs @ requests evs'"
  by (induction evs rule: requests.induct) auto

lemma concat_rs_tx: "concat (map rs_tx evs) = map snd (requests evs)"
  by (induction evs rule: requests.induct) auto

lemma numbered_unique: "numbered reqs n r \<Longrightarrow> numbered reqs n r' \<Longrightarrow> r = r'"
  by (simp add: numbered_def)

lemma numbered_in: "numbered reqs n r \<Longrightarrow> r \<in> set reqs"
  by (auto simp: numbered_def)

lemma numbered_append: "numbered reqs n r \<Longrightarrow> numbered (reqs @ reqs') n r"
  by (auto simp: numbered_def nth_append)

lemma unat_next:
  assumes "Suc (length xs) < 2 ^ 64"
  shows "unat (of_nat (length xs) + 1 :: u64) = Suc (length xs)"
proof -
  have "unat (of_nat (Suc (length xs)) :: u64) = Suc (length xs)"
    using assms by (simp only: unat_of_nat) simp
  then show ?thesis by (simp add: add.commute)
qed

lemma numbered_new:
  "Suc (length reqs) < 2 ^ 64 \<Longrightarrow> numbered (reqs @ [r]) (of_nat (length reqs) + 1) r"
  by (simp add: numbered_def unat_next)

lemma numbered_fresh:
  "Suc (length reqs) < 2 ^ 64 \<Longrightarrow> \<not> numbered reqs (of_nat (length reqs) + 1) r"
  by (simp add: numbered_def unat_next)

text \<open>The effects and the task after a history, from a fresh actor.\<close>

definition rs_log :: "rs_event list \<Rightarrow> rs_effect list" where
  "rs_log evs = fst (start_reliable_sender ReliableSenderHandle_start evs)"

definition rs_task :: "rs_event list \<Rightarrow> ReliableSenderActor task" where
  "rs_task evs = snd (start_reliable_sender ReliableSenderHandle_start evs)"

abbreviation rs_run :: "rs_event list \<Rightarrow> rs_effect list \<times> ReliableSenderActor task" where
  "rs_run \<equiv> actor_run rs_step rs_held rs_tx (Running ReliableSenderActor_new)"

lemma rs_run: "rs_run evs = (rs_log evs, rs_task evs)"
  by (simp add: rs_log_def rs_task_def start_reliable_sender_def ReliableSenderHandle_start_def)

lemma rs_run_cases:
  obtains (running) a where "rs_run evs = (rs_log evs, Running a)"
  | (stuck) before ev after es1 a es2 where "evs = before @ ev # after" "rs_run before = (es1, Running a)"
      "rs_step a ev = (es2, Blocked)" "rs_log evs = es1 @ es2" "rs_task evs = Stuck"
proof (cases rule: actor_run_cases [of rs_step rs_held rs_tx ReliableSenderActor_new evs, OF rs_step_no_panic])
  case (1 es a)
  with running show ?thesis by (simp add: rs_run)
next
  case (2 before ev after es1 a es2)
  from stuck [OF 2(1-3)] 2(4) show ?thesis by (simp add: rs_run)
qed

text \<open>An effect of the log comes from an event that a running task served.\<close>

lemma rs_origin:
  assumes "x \<in> set (rs_log evs)" and "\<forall>ch. x \<noteq> DropTx ch"
  obtains before ev after es1 a es2 r where "evs = before @ ev # after"
    and "rs_run before = (es1, Running a)" and "rs_step a ev = (es2, r)" and "x \<in> set es2"
proof -
  from assms(1) have "x \<in> set (fst (rs_run evs))" by (simp add: rs_run)
  then show ?thesis using assms(2) that by (rule actor_run_origin)
qed

lemma rs_log_append: "\<exists>es. rs_log (evs @ evs') = rs_log evs @ es"
  by (auto simp: rs_log_def start_reliable_sender_def actor_run_append split: prod.splits)

lemma rs_wf_new [simp]: "rs_wf ReliableSenderActor_new"
  by (simp add: rs_wf_def ReliableSenderActor_new_def)

text \<open>An event whose handler returns, and histories of such events: the task is running after them.\<close>

fun answered :: "rs_event \<Rightarrow> bool" where
  "answered (FromClient cmd e) \<longleftrightarrow> conn_ok e \<noteq> None"
| "answered (FromConnection (Send m n) e) \<longleftrightarrow> conn_ok e \<noteq> None \<and> (conn_ok e = Some True \<longrightarrow> client_ok e \<noteq> None)"
| "answered (FromConnection (Ack n) e) \<longleftrightarrow> True"
| "answered BothClosed \<longleftrightarrow> True"

lemma rs_step_answered: "answered ev \<longleftrightarrow> (\<exists>es a'. rs_step a ev = (es, Done a'))"
  by (cases ev rule: rs_event_kinds) (auto split: option.split)

lemma rs_run_answered:
  assumes "list_all answered evs"
  obtains a where "rs_run evs = (rs_log evs, Running a)"
proof (cases rule: rs_run_cases [of evs])
  case (stuck before ev after es1 a es2)
  then have "answered ev" using assms by simp
  with stuck(3) rs_step_answered [of ev a] show ?thesis by simp
qed (rule that)

text \<open>What one event can add to the log, read backwards.\<close>

lemma rs_step_Reply:
  assumes "rs_step a ev = (es, r)" and "Reply ch v \<in> set es"
  obtains n e m where "ev = FromConnection (Ack n) e" and "hm_get (waiting_for_ack a) n = Some (m, ch)"
    and "v = Inr ()"
  using assms by (cases ev rule: rs_event_kinds) (auto split: if_splits option.splits)

lemma rs_step_Send_out:
  assumes "rs_step a ev = (es, r)" and "Out (ToConnection (Send m n)) \<in> set es"
  obtains ch e where "ev = FromClient (ClientSend m ch) e" and "n = sequence_number a + 1"
  using assms by (cases ev rule: rs_event_kinds) (auto split: if_splits option.splits)

lemma rs_step_Ack_out:
  assumes "rs_step a ev = (es, r)" and "Out (ToConnection (Ack n)) \<in> set es"
  obtains m e where "ev = FromConnection (Send m n) e" and "conn_ok e \<noteq> Some False"
  using assms by (cases ev rule: rs_event_kinds) (auto split: if_splits option.splits)

lemma rs_step_Client_out:
  assumes "rs_step a ev = (es, r)" and "Out (ToClient m) \<in> set es"
  obtains n e where "ev = FromConnection (Send m n) e"
  using assms by (cases ev rule: rs_event_kinds) (auto split: if_splits option.splits)

text \<open>The invariants of a history. The bound on the number of requests is the point where the
  64-bit sequence number would wrap.\<close>

lemma rs_hist_seq:
  assumes "rs_run evs = (es, Running a)"
  shows "sequence_number a = of_nat (length (requests evs))"
  using assms
proof (induction rule: actor_run_induct)
  case start
  show ?case by (simp add: ReliableSenderActor_new_def)
next
  case (step evs es a ev es' a')
  then show ?case
    by (cases ev rule: rs_event_kinds) (auto split: if_splits option.splits)
qed

lemma rs_hist_waiting:
  assumes "rs_run evs = (es, Running a)" and "length (requests evs) < 2 ^ 64"
  shows "hm_get (waiting_for_ack a) n = Some r \<Longrightarrow> numbered (requests evs) n r"
  using assms
proof (induction arbitrary: n r rule: actor_run_induct)
  case start
  then show ?case by (simp add: ReliableSenderActor_new_def)
next
  case (step evs es a ev es' a')
  show ?case
  proof (cases ev rule: rs_event_kinds)
    case (client m ch e)
    have seq: "sequence_number a = of_nat (length (requests evs))"
      using step.hyps(1) by (rule rs_hist_seq)
    have bound: "Suc (length (requests evs)) < 2 ^ 64"
      using step.prems(2) by (simp add: client)
    have get: "hm_get (hm_insert (sequence_number a + 1) (m, ch) (waiting_for_ack a)) n = Some r"
      using step.hyps(2) step.prems(1) by (auto simp: client split: if_splits)
    show ?thesis
    proof (cases "n = sequence_number a + 1")
      case True
      with get have "r = (m, ch)" by (simp add: hm_simps)
      with True seq bound show ?thesis by (simp add: client numbered_new)
    next
      case False
      with get have "hm_get (waiting_for_ack a) n = Some r" by (simp add: hm_simps)
      with step.IH bound show ?thesis by (simp add: client numbered_append)
    qed
  next
    case (ack n' e)
    with step show ?thesis by (cases r) (auto simp: hm_simps split: if_splits option.splits)
  qed (use step in \<open>auto split: if_splits\<close>)
qed

lemma rs_hist_fresh:
  assumes "rs_run evs = (es, Running a)" and "Suc (length (requests evs)) < 2 ^ 64"
  shows "hm_get (waiting_for_ack a) (sequence_number a + 1) = None"
proof (rule ccontr)
  assume "hm_get (waiting_for_ack a) (sequence_number a + 1) \<noteq> None"
  then obtain r where "hm_get (waiting_for_ack a) (sequence_number a + 1) = Some r" by auto
  with assms have "numbered (requests evs) (sequence_number a + 1) r"
    by (intro rs_hist_waiting) auto
  with assms show False by (simp add: rs_hist_seq numbered_fresh)
qed

lemma rs_step_no_drop:
  assumes "rs_run evs = (es, Running a)" and "rs_step a ev = (es', r)"
    and "length (requests (evs @ [ev])) < 2 ^ 64"
  shows "DropTx ch \<notin> set es'"
proof (cases ev rule: rs_event_kinds)
  case (client m c e)
  have "hm_get (waiting_for_ack a) (sequence_number a + 1) = None"
    using assms(1,3) by (intro rs_hist_fresh) (auto simp: client)
  with assms(2) show ?thesis by (auto simp: client split: if_splits)
qed (use assms(2) in \<open>auto split: if_splits option.splits\<close>)

lemma rs_log_no_drop:
  assumes "length (requests evs) < 2 ^ 64"
  shows "DropTx ch \<notin> set (rs_log evs)"
proof -
  have here: "DropTx ch \<notin> set es" if "rs_run evs' = (es, Running a)" "length (requests evs') < 2 ^ 64" for evs' es a
    using that
  proof (induction rule: actor_run_induct)
    case (step evs es a ev es' a')
    then show ?case using rs_step_no_drop [OF step.hyps] by auto
  qed simp
  show ?thesis
  proof (cases rule: rs_run_cases [of evs])
    case (running a)
    with assms here show ?thesis by blast
  next
    case (stuck before ev after es1 a es2)
    with assms have "length (requests (before @ [ev])) < 2 ^ 64"
      by (cases ev rule: rs_event_kinds) auto
    with stuck rs_step_no_drop [OF stuck(2,3)] here [OF stuck(2)] show ?thesis by auto
  qed
qed

lemma rs_log_sends:
  assumes "Out (ToConnection (Send m n)) \<in> set (rs_log evs)" and "length (requests evs) < 2 ^ 64"
  shows "\<exists>ch. numbered (requests evs) n (m, ch)"
proof -
  from assms(1) obtain before ev after es1 a es2 r where evs: "evs = before @ ev # after"
    and run: "rs_run before = (es1, Running a)"
    and step: "rs_step a ev = (es2, r)" "Out (ToConnection (Send m n)) \<in> set es2" by (rule rs_origin) simp
  from step obtain ch e where ev: "ev = FromClient (ClientSend m ch) e" and n: "n = sequence_number a + 1"
    by (rule rs_step_Send_out)
  have "numbered (requests (before @ [ev])) n (m, ch)"
    using assms(2) by (simp add: evs ev n rs_hist_seq [OF run] numbered_new)
  from numbered_append [OF this, of "requests after"] show ?thesis by (auto simp: evs ev)
qed

lemma rs_log_replies:
  assumes "Reply ch v \<in> set (rs_log evs)" and "length (requests evs) < 2 ^ 64"
  obtains before n e after m where "evs = before @ FromConnection (Ack n) e # after"
    and "numbered (requests before) n (m, ch)"
proof -
  from assms(1) obtain before ev after es1 a es2 r where evs: "evs = before @ ev # after"
    and run: "rs_run before = (es1, Running a)"
    and step: "rs_step a ev = (es2, r)" "Reply ch v \<in> set es2" by (rule rs_origin) simp
  from step obtain n e m where ev: "ev = FromConnection (Ack n) e"
    and "hm_get (waiting_for_ack a) n = Some (m, ch)" by (rule rs_step_Reply)
  with run assms(2) have "numbered (requests before) n (m, ch)" by (intro rs_hist_waiting) (auto simp: evs)
  with evs ev that show ?thesis by blast
qed

lemma rs_log_client:
  assumes "Out (ToClient m) \<in> set (rs_log evs)"
  shows "\<exists>n e. FromConnection (Send m n) e \<in> set evs"
proof -
  from assms obtain before ev after es1 a es2 r where evs: "evs = before @ ev # after"
    and step: "rs_step a ev = (es2, r)" "Out (ToClient m) \<in> set es2" by (rule rs_origin) simp
  from step obtain n e where "ev = FromConnection (Send m n) e" by (rule rs_step_Client_out)
  with evs show ?thesis by auto
qed

text \<open>The task is waiting for ever in its handler of an event.\<close>

definition waits_at :: "rs_event list \<Rightarrow> rs_event \<Rightarrow> bool" where
  "waits_at evs ev \<longleftrightarrow> (\<exists>before after. evs = before @ ev # after
     \<and> (\<exists>a. rs_task before = Running a) \<and> rs_task (before @ [ev]) = Stuck)"

text \<open>A message that was acknowledged was handed to the client, or its channel was closed, or the
  task is still waiting to hand it over.\<close>

lemma rs_log_acks:
  assumes "Out (ToConnection (Ack n)) \<in> set (rs_log evs)"
  obtains m e where "FromConnection (Send m n) e \<in> set evs" and "conn_ok e \<noteq> Some False"
    and "Out (ToClient m) \<in> set (rs_log evs) \<or> conn_ok e = Some True \<and> client_ok e = Some False
      \<or> waits_at evs (FromConnection (Send m n) e)"
proof -
  from assms obtain before ev after es1 a es2 r where evs: "evs = before @ ev # after"
    and run: "rs_run before = (es1, Running a)"
    and step: "rs_step a ev = (es2, r)" "Out (ToConnection (Ack n)) \<in> set es2" by (rule rs_origin) simp
  from step obtain m e where ev: "ev = FromConnection (Send m n) e" and ok: "conn_ok e \<noteq> Some False"
    by (rule rs_step_Ack_out)
  have log: "set es2 \<subseteq> set (rs_log evs)"
    using actor_run_step_effects [OF run step(1), of after] by (simp add: evs rs_run)
  have "waits_at evs ev" if "r = Blocked"
  proof -
    from run step(1) that have "rs_run (before @ [ev]) = (es1 @ es2, Stuck)" by (simp add: actor_run_append)
    with run evs show ?thesis by (auto simp: waits_at_def rs_run)
  qed
  moreover have "Out (ToClient m) \<in> set es2 \<or> conn_ok e = Some True \<and> client_ok e = Some False \<or> r = Blocked"
    using step(1) ok by (cases "conn_ok e"; cases "client_ok e") (auto simp: ev)
  ultimately show ?thesis using that [of m e] ok log by (auto simp: evs ev)
qed

lemma rs_hist_delivers:
  assumes "rs_run evs = (es, Running a)"
    and "FromConnection (Send m n) e \<in> set evs" and "conn_ok e = Some True" and "client_ok e = Some True"
  shows "Out (ToClient m) \<in> set es"
  using assms
proof (induction rule: actor_run_induct)
  case (step evs es a ev es' a')
  then show ?case by auto
qed simp

text \<open>Which channels a running actor has used.\<close>

lemma rs_conserve:
  assumes "rs_run evs = (es, Running a)"
  shows "consumed es + mset (rs_held a) = mset (map snd (requests evs))"
  using rs.run_conserve [OF rs_wf_new assms]
  by (simp add: concat_rs_tx) (simp add: rs_held_def ReliableSenderActor_new_def)

lemma rs_consumed_requests:
  assumes "rs_run evs = (es, Running a)"
  shows "set_mset (consumed es) \<subseteq> set (map snd (requests evs))"
  using arg_cong [OF rs_conserve [OF assms], of set_mset] by auto

lemma rs_held_unused:
  assumes "rs_run evs = (es, Running a)" and "ch \<in> set (rs_held a)" and "distinct (map snd (requests evs))"
  shows "ch \<notin># consumed es"
proof -
  have "count (mset (map snd (requests evs))) ch \<le> 1"
    using assms(3) by (simp only: distinct_count_atmost_1) simp
  moreover have "0 < count (mset (rs_held a)) ch" using assms(2) by simp
  moreover have "count (consumed es) ch + count (mset (rs_held a)) ch = count (mset (map snd (requests evs))) ch"
    by (simp only: count_union [symmetric] rs_conserve [OF assms(1)])
  ultimately have "count (consumed es) ch = 0" by linarith
  then show ?thesis by (simp add: not_in_iff)
qed

text \<open>Messages from the connection.\<close>

fun from_connection :: "rs_event \<Rightarrow> bool" where
  "from_connection (FromConnection msg e) = True"
| "from_connection _ = False"

section \<open>A reference for the waiters\<close>

definition is_ack :: "u64 \<Rightarrow> rs_event \<Rightarrow> bool" where
  "is_ack n ev = (case ev of FromConnection (Ack n') e \<Rightarrow> n' = n | _ \<Rightarrow> False)"

text \<open>The requests after which no acknowledgement with their number comes; \<open>k\<close> requests came before.\<close>

fun unacknowledged :: "nat \<Rightarrow> rs_event list \<Rightarrow> (nat \<times> AckWaiter) list" where
  "unacknowledged k [] = []"
| "unacknowledged k (FromClient (ClientSend m ch) e # evs) =
     (if list_ex (is_ack (of_nat (Suc k))) evs then [] else [(Suc k, m, ch)]) @ unacknowledged (Suc k) evs"
| "unacknowledged k (FromConnection msg e # evs) = unacknowledged k evs"
| "unacknowledged k (BothClosed # evs) = unacknowledged k evs"

lemma unacknowledged_keys:
  "(i, r) \<in> set (unacknowledged k evs) \<Longrightarrow> k < i \<and> i \<le> k + length (requests evs)"
  by (induction k evs rule: unacknowledged.induct) (auto split: if_splits)

lemma unacknowledged_distinct: "distinct (map fst (unacknowledged k evs))"
  by (induction k evs rule: unacknowledged.induct) (auto dest: unacknowledged_keys)

lemma unacknowledged_snoc:
  "unacknowledged k (evs @ [FromClient (ClientSend m ch) e])
     = unacknowledged k evs @ [(Suc (k + length (requests evs)), m, ch)]"
  "unacknowledged k (evs @ [FromConnection (Send m n) e]) = unacknowledged k evs"
  "unacknowledged k (evs @ [BothClosed]) = unacknowledged k evs"
  by (induction k evs rule: unacknowledged.induct) (auto simp: is_ack_def)

lemma unacknowledged_Ack:
  assumes "k + length (requests evs) < 2 ^ 64"
  shows "unacknowledged k (evs @ [FromConnection (Ack n) e]) = AList.delete (unat n) (unacknowledged k evs)"
  using assms
proof (induction k evs rule: unacknowledged.induct)
  case (2 k m ch e' evs)
  then have "unat (of_nat (Suc k) :: u64) = Suc k" by (simp only: unat_of_nat) simp
  then have "n = of_nat (Suc k) \<longleftrightarrow> unat n = Suc k" by (metis word_unat_eq_iff)
  with 2 show ?case by (auto simp: is_ack_def)
qed auto

lemma rs_hist_unacknowledged:
  assumes "rs_run evs = (es, Running a)" and "length (requests evs) < 2 ^ 64"
  shows "hm_get (waiting_for_ack a) n = map_of (unacknowledged 0 evs) (unat n)"
  using assms
proof (induction arbitrary: n rule: actor_run_induct)
  case start
  show ?case by (simp add: ReliableSenderActor_new_def)
next
  case (step evs es a ev es' a')
  from step.prems have few: "length (requests evs) < 2 ^ 64" by simp
  show ?case
  proof (cases ev rule: rs_event_kinds)
    case (client m ch e)
    let ?k = "length (requests evs)"
    have bound: "Suc ?k < 2 ^ 64" using step.prems by (simp add: client)
    have num: "sequence_number a + 1 = n \<longleftrightarrow> unat n = Suc ?k"
      using unat_next [OF bound] by (auto simp: rs_hist_seq [OF step.hyps(1)] word_unat_eq_iff)
    have "map_of (unacknowledged 0 evs) (Suc ?k) = None"
      using unacknowledged_keys [of "Suc ?k" _ 0 evs] by (force simp: map_of_eq_None_iff)
    with step.IH [OF few] step.hyps(2) num show ?thesis
      by (auto simp: client unacknowledged_snoc hm_simps map_add_def split: option.splits if_splits)
  qed (use step.IH [OF few] step.hyps(2) few in \<open>auto simp: unacknowledged_snoc unacknowledged_Ack hm_simps
      delete_conv' word_unat_eq_iff split: if_splits option.splits\<close>)
qed

section \<open>Properties\<close>

text \<open>C16. The map of waiters is what it should be, against a reference that looks at the whole
  history: the actor waits for exactly those requests after which no acknowledgement with their
  number has come, each under the number that says how many requests came before it. An
  acknowledgement that comes too early, again, or with an unknown number makes no difference.\<close>

theorem waiting_for_ack_reference:
  assumes "start_reliable_sender (Running ReliableSenderActor_new) evs = (es, Running a)"
    and "length (requests evs) < 2 ^ 64"
  shows "hm_get (waiting_for_ack a) n = map_of (unacknowledged 0 evs) (unat n)"
  using rs_hist_unacknowledged assms by (simp add: start_reliable_sender_def)

text \<open>An environment in which every call returns \<open>Ok\<close>, for the concrete instances.\<close>

abbreviation all_ok :: rs_env where
  "all_ok \<equiv> \<lparr>conn_ok = Some True, client_ok = Some True\<rparr>"

lemmas rs_eval = start_reliable_sender_def ReliableSenderHandle_start_def ReliableSenderActor_new_def

theorem waiting_for_ack_reference_witness:
  "\<exists>es a. start_reliable_sender (Running ReliableSenderActor_new)
       [FromClient (ClientSend (Message_from_Ping PingMessage_default) 5) all_ok,
        FromClient (ClientSend (Message_from_Ping PingMessage_default) 6) all_ok,
        FromConnection (Ack 1) all_ok] = (es, Running a)
     \<and> hm_get (waiting_for_ack a) 2 = Some (Message_from_Ping PingMessage_default, 6)"
proof -
  let ?m = "Message_from_Ping PingMessage_default"
  let ?evs = "[FromClient (ClientSend ?m 5) all_ok, FromClient (ClientSend ?m 6) all_ok, FromConnection (Ack 1) all_ok]"
  have "\<exists>es a. start_reliable_sender (Running ReliableSenderActor_new) ?evs = (es, Running a)"
    by (simp add: rs_eval)
  then obtain es a where run: "start_reliable_sender (Running ReliableSenderActor_new) ?evs = (es, Running a)"
    by blast
  from waiting_for_ack_reference [OF run, of 2] run show ?thesis by (auto simp: is_ack_def)
qed

text \<open>C19. A client that takes no more messages stops the reliable sender for good: the message that
  does not fit is acknowledged, then the actor waits to hand it over. From then on it looks at
  nothing: every caller whose message was not yet acknowledged, and every later one, waits for
  ever, also when the peer acknowledges, while the peer was told that its own message arrived.\<close>

theorem unread_client_stalls_sender:
  assumes "start_reliable_sender (Running ReliableSenderActor_new) before = (es, Running a)"
    and "conn_ok e = Some True" and "client_ok e = None"
    and "length (requests before) < 2 ^ 64" and "distinct (map snd (requests (before @ after)))"
  shows "start_reliable_sender (Running ReliableSenderActor_new) (before @ FromConnection (Send m n) e # after)
       = (es @ [Out (ToConnection (Ack n))], Stuck)
     \<and> (\<forall>(m', ch) \<in> snd ` set (unacknowledged 0 before) \<union> set (requests after).
          ReliableSenderHandle_send True (oneshot_await (es @ [Out (ToConnection (Ack n))]) ch) = Blocked)"
proof -
  note run = assms(1) [unfolded start_reliable_sender_def]
  have "ch \<notin># consumed es" if "(m', ch) \<in> snd ` set (unacknowledged 0 before) \<union> set (requests after)" for m' ch
    using that
  proof
    assume "(m', ch) \<in> snd ` set (unacknowledged 0 before)"
    then obtain i where "(i, m', ch) \<in> set (unacknowledged 0 before)" by force
    then have get: "map_of (unacknowledged 0 before) i = Some (m', ch)"
      using unacknowledged_distinct by (rule map_of_is_SomeI [rotated])
    have "i < 2 ^ 64" using unacknowledged_keys [OF map_of_SomeD [OF get]] assms(4) by simp
    then have "unat (of_nat i :: u64) = i" by (simp only: unat_of_nat) simp
    with rs_hist_unacknowledged [OF run assms(4), of "of_nat i"] get
    have "hm_get (waiting_for_ack a) (of_nat i) = Some (m', ch)" by simp
    then have "ch \<in> set (rs_held a)" by (force simp: hm_get_def rs_held_def dest: map_of_SomeD)
    moreover have "distinct (map snd (requests before))" using assms(5) by simp
    ultimately show ?thesis using rs_held_unused [OF run] by blast
  next
    assume "(m', ch) \<in> set (requests after)"
    then have "ch \<notin> set (map snd (requests before))" using assms(5) by force
    with rs_consumed_requests [OF run] show ?thesis by auto
  qed
  then have "ReliableSenderHandle_send True (oneshot_await (es @ [Out (ToConnection (Ack n))]) ch) = Blocked"
    if "(m', ch) \<in> snd ` set (unacknowledged 0 before) \<union> set (requests after)" for m' ch
    using that oneshot_await_None [of "es @ [Out (ToConnection (Ack n))]" ch]
    by (simp add: ReliableSenderHandle_send_def)
  moreover have "start_reliable_sender (Running ReliableSenderActor_new) (before @ FromConnection (Send m n) e # after)
      = (es @ [Out (ToConnection (Ack n))], Stuck)"
    using run assms(2,3) by (simp add: start_reliable_sender_def actor_run_append)
  ultimately show ?thesis by blast
qed

theorem unread_client_stalls_sender_witness:
  "ReliableSenderHandle_send True (oneshot_await (fst (start_reliable_sender (Running ReliableSenderActor_new)
     [FromClient (ClientSend (Message_from_Ping PingMessage_default) 7) all_ok,
      FromConnection (Send (Message_from_Ping PingMessage_default) 1) \<lparr>conn_ok = Some True, client_ok = None\<rparr>,
      FromConnection (Ack 1) all_ok])) 7) = Blocked"
proof -
  let ?m = "Message_from_Ping PingMessage_default"
  let ?before = "[FromClient (ClientSend ?m 7) all_ok]" and ?e = "\<lparr>conn_ok = Some True, client_ok = None\<rparr>"
  have "\<exists>es a. start_reliable_sender (Running ReliableSenderActor_new) ?before = (es, Running a)"
    by (simp add: rs_eval)
  then obtain es a where run: "start_reliable_sender (Running ReliableSenderActor_new) ?before = (es, Running a)"
    by blast
  from unread_client_stalls_sender [OF run, of ?e "[FromConnection (Ack 1) all_ok]" ?m 1] show ?thesis
    by (simp del: rs_steps)
qed

text \<open>C15. As long as the sequence number has not wrapped, a caller with a channel of its own is
  in one of two situations: its message was acknowledged and the handle returned \<open>Ok\<close>, or the
  handle waits, and while the actor is running it holds the caller's channel. The handle never
  returns the error it has for a failed send, and it has no time limit of its own.\<close>

theorem reliable_send_ok_or_waits:
  assumes "start_reliable_sender (Running ReliableSenderActor_new) evs = (es, t)"
    and "(m, ch) \<in> set (requests evs)" and "distinct (map snd (requests evs))"
    and "length (requests evs) < 2 ^ 64"
  shows "(\<exists>n e. numbered (requests evs) n (m, ch) \<and> FromConnection (Ack n) e \<in> set evs
            \<and> ReliableSenderHandle_send True (oneshot_await es ch) = Done (Inr ()))
       \<or> ((\<forall>a. t = Running a \<longrightarrow> ch \<in> set (rs_held a))
            \<and> ReliableSenderHandle_send True (oneshot_await es ch) = Blocked)"
proof -
  have run: "rs_run evs = (es, t)" and es: "es = rs_log evs"
    using assms(1) rs_run [of evs] by (simp_all add: start_reliable_sender_def)
  show ?thesis
  proof (cases "oneshot_await es ch")
    case None
    have "ch \<in> set (concat (map rs_tx evs))"
      using assms(2) by (force simp: concat_rs_tx)
    with None have "ch \<in> set (rs_held a)" if "t = Running a" for a
      using rs.run_waiting_held [OF rs_wf_new run [unfolded that]] by blast
    with None show ?thesis by (simp add: ReliableSenderHandle_send_def)
  next
    case (Some r)
    have "DropTx ch \<notin> set es" using rs_log_no_drop [OF assms(4)] by (simp add: es)
    with Some obtain v where v: "r = Inr v"
      by (cases r) (auto dest: oneshot_await_DropTx)
    with Some have "Reply ch v \<in> set (rs_log evs)" by (simp add: oneshot_await_Reply es)
    from this assms(4) obtain before n e after m' where evs: "evs = before @ FromConnection (Ack n) e # after"
      and num: "numbered (requests before) n (m', ch)" by (rule rs_log_replies)
    from numbered_append [OF num] have num: "numbered (requests evs) n (m', ch)" by (simp add: evs)
    have "m' = m"
      using inj_onD [of snd "set (requests evs)" "(m', ch)" "(m, ch)"] assms(2,3) numbered_in [OF num]
      by (simp add: distinct_map)
    with Some v evs num show ?thesis by (auto simp: ReliableSenderHandle_send_def)
  qed
qed

theorem reliable_send_ok_or_waits_witness:
  "\<exists>es a. start_reliable_sender (Running ReliableSenderActor_new)
      [FromClient (ClientSend (Message_from_Ping PingMessage_default) 7) all_ok,
       FromConnection (Ack 1) all_ok] = (es, Running a)
    \<and> ReliableSenderHandle_send True (oneshot_await es 7) = Done (Inr ())"
proof -
  let ?m = "Message_from_Ping PingMessage_default"
  let ?evs = "[FromClient (ClientSend ?m 7) all_ok, FromConnection (Ack 1) all_ok]"
  have "\<exists>es a. start_reliable_sender (Running ReliableSenderActor_new) ?evs = (es, Running a) \<and> rs_held a = []"
    by (simp add: rs_eval rs_held_def)
  then obtain es a where run: "start_reliable_sender (Running ReliableSenderActor_new) ?evs = (es, Running a)"
    and "rs_held a = []" by blast
  with run reliable_send_ok_or_waits [OF run, of ?m 7] show ?thesis by auto
qed

text \<open>C30. A message handed over when the connection no longer delivers anything is never
  answered: if after it only client commands and idle rounds follow, the call of \<open>send\<close> never
  returns, whatever happened before. The echo broadcast actor awaits such a call without a time
  limit.\<close>

theorem send_on_dead_connection_blocks:
  assumes "\<forall>ev \<in> set after. \<not> from_connection ev"
    and "evs = before @ FromClient (ClientSend m ch) e # after"
    and "ch \<notin> snd ` set (requests before)" and "length (requests evs) < 2 ^ 64"
  shows "ReliableSenderHandle_send True (oneshot_await (rs_log evs) ch) = Blocked"
proof (cases "oneshot_await (rs_log evs) ch")
  case None
  then show ?thesis by (simp add: ReliableSenderHandle_send_def)
next
  case (Some r)
  with rs_log_no_drop [OF assms(4)] obtain v where "r = Inr v" by (cases r) (auto dest: oneshot_await_DropTx)
  with Some have "Reply ch v \<in> set (rs_log evs)" by (simp add: oneshot_await_Reply)
  from this assms(4) obtain before' n e' after' m' where evs: "evs = before' @ FromConnection (Ack n) e' # after'"
    and num: "numbered (requests before') n (m', ch)" by (rule rs_log_replies)
  have "FromConnection (Ack n) e' \<notin> set (FromClient (ClientSend m ch) e # after)" using assms(1) by auto
  with evs assms(2) obtain us where "before = before' @ us"
    by (auto simp: append_eq_append_conv2 Cons_eq_append_conv)
  with numbered_in [OF num] assms(3) show ?thesis by force
qed

theorem send_on_dead_connection_blocks_witness:
  "ReliableSenderHandle_send True (oneshot_await (rs_log
     [FromClient (ClientSend (Message_from_Ping PingMessage_default) 3) all_ok,
      FromConnection (Ack 1) all_ok,
      FromClient (ClientSend (Message_from_Ping PingMessage_default) 4) \<lparr>conn_ok = Some False, client_ok = None\<rparr>,
      BothClosed]) 4) = Blocked"
  by (rule send_on_dead_connection_blocks
      [where before = "[FromClient (ClientSend (Message_from_Ping PingMessage_default) 3) all_ok,
        FromConnection (Ack 1) all_ok]" and after = "[BothClosed]"
        and m = "Message_from_Ping PingMessage_default" and e = "\<lparr>conn_ok = Some False, client_ok = None\<rparr>"])
    simp_all

text \<open>The service built on the handle sends exactly the reply of the inner service.\<close>

lemma ReliableSend_call_trace:
  "fst (ReliableSend_call inner send msg) =
     (case inner msg of Done (Inr (Some reply)) \<Rightarrow> [reply] | _ \<Rightarrow> [])"
  by (cases "inner msg") (auto simp: ReliableSend_call_def split: sum.splits option.splits)

end
