(* ===== verification/Connection.thy ===== *)
theory Connection
  imports Noise ReliableSender "HOL-Library.Sublist"
begin

text \<open>
  \<open>src/src/node/connection.rs\<close>: the actor that owns a connection. It encrypts and writes what its
  handle is given, and decrypts, parses and forwards what it reads. The wire format of
  \<open>ReliableNetworkMessage\<close> (\<open>as_bytes\<close>, \<open>from_bytes\<close>) is here too; the crate \<open>flexbuffers\<close> is a
  parameter.

  The branches of the \<open>select!\<close> loop are events, each with the answers of its environment: what
  \<open>writer.send\<close> yields and whether the subscriber's channel is open, \<open>None\<close> where the await never
  ends. The \<open>else\<close> branch cannot be taken, because the pattern of the reader's branch always
  matches. A task that returned has state \<open>Returned\<close>: its channels are closed, so the sender of a
  later command is dropped.

  The lemmas about the channel as a whole are proved in the locale \<open>noise_channel\<close>, for every
  implementation of the trait \<open>NoiseIO\<close>, and used on \<open>NoiseHandler\<close>.
\<close>

section \<open>The wire format\<close>

record flexbuffers =
  flex_serialize :: "ReliableNetworkMessage \<Rightarrow> string + bytes"
  flex_from_slice :: "bytes \<Rightarrow> string + ReliableNetworkMessage"

definition as_bytes :: "flexbuffers \<Rightarrow> ReliableNetworkMessage \<Rightarrow> bytes option outcome" where
  "as_bytes fb msg = bind_outcome (unwrap_result (flex_serialize fb msg)) (\<lambda>b. Done (Some b))"

definition from_bytes :: "flexbuffers \<Rightarrow> bytes \<Rightarrow> string + ReliableNetworkMessage" where
  "from_bytes fb b = flex_from_slice fb b"

text \<open>What the code relies on: a value that serializes is read back.\<close>

definition flex_roundtrip :: "flexbuffers \<Rightarrow> bool" where
  "flex_roundtrip fb \<longleftrightarrow> (\<forall>x b. flex_serialize fb x = Inr b \<longrightarrow> flex_from_slice fb b = Inr x)"

section \<open>The actor\<close>

datatype ConnectionMessage = ConnSend ReliableNetworkMessage chan

record 'n ConnectionActor =
  conn_noise :: 'n

datatype 'n conn_state = Serving "'n ConnectionActor" | Returned

datatype conn_event =
    FromHandle ConnectionMessage "ConnectionResult option"
  | FromReader "(string + bytes) option" "bool option"

text \<open>\<open>ToWriter f w\<close> is a call of \<open>writer.send(f)\<close> and how it ended, \<open>ToSubscriber x\<close> a message the
  subscriber took.\<close>

datatype conn_out = ToWriter bytes "ConnectionResult option" | ToSubscriber ReliableNetworkMessage

type_synonym conn_effect = "(ConnectionResult, conn_out) effect"

definition ConnectionActor_start ::
  "'n NoiseIO \<Rightarrow> reader \<Rightarrow> writer \<Rightarrow> 'n \<Rightarrow> bool \<Rightarrow> (bytes, 'n ConnectionActor \<times> reader) traced" where
  "ConnectionActor_start io rd wr noise init =
     trace_bind (run_handshake io noise init rd wr) (\<lambda>(noise, rd).
       untraced (Done (\<lparr>conn_noise = noise\<rparr>, rd)))"

text \<open>\<open>written\<close> is the result of \<open>self.writer.send(data).await\<close>.\<close>

definition handle_send ::
  "'n NoiseIO \<Rightarrow> flexbuffers \<Rightarrow> 'n ConnectionActor \<Rightarrow> ReliableNetworkMessage \<Rightarrow> chan \<Rightarrow> ConnectionResult option
    \<Rightarrow> (conn_effect, ConnectionResult \<times> 'n ConnectionActor) traced" where
  "handle_send io fb a msg respond_to written =
     trace_bind (untraced (as_bytes fb msg)) (\<lambda>bytes.
       case bytes of
         Some network_message \<Rightarrow>
           trace_bind (untraced (build_transport_message io (conn_noise a) network_message)) (\<lambda>(data, noise).
           let a' = a\<lparr>conn_noise := noise\<rparr> in
           trace_bind (emit (Out (ToWriter data written)) (case written of None \<Rightarrow> Blocked | Some r \<Rightarrow> Done r)) (\<lambda>r.
           if is_ok r then emit (Reply respond_to (Inr ())) (Done (Inr (), a'))
           else emit (DropTx respond_to) (Done (Inl ''Error writing to socket stream'', a'))))
       | None \<Rightarrow> emit (DropTx respond_to) (Done (Inl ''Error serializing message'', a)))"

fun conn_handle_message ::
  "'n NoiseIO \<Rightarrow> flexbuffers \<Rightarrow> 'n ConnectionActor \<Rightarrow> ConnectionMessage \<Rightarrow> ConnectionResult option
    \<Rightarrow> (conn_effect, ConnectionResult \<times> 'n ConnectionActor) traced" where
  "conn_handle_message io fb a (ConnSend data respond_to) written = handle_send io fb a data respond_to written"

text \<open>\<open>subscribed\<close> says whether the subscriber took the message.\<close>

definition handle_received ::
  "'n NoiseIO \<Rightarrow> flexbuffers \<Rightarrow> 'n ConnectionActor \<Rightarrow> bytes \<Rightarrow> bool option
    \<Rightarrow> (conn_effect, ConnectionResult \<times> 'n ConnectionActor) traced" where
  "handle_received io fb a message subscribed =
     trace_bind (untraced (read_transport_message io (conn_noise a) message)) (\<lambda>(decrypted, noise).
       let a' = a\<lparr>conn_noise := noise\<rparr> in
       case from_bytes fb decrypted of
         Inl e \<Rightarrow> untraced (Done (Inl e, a'))
       | Inr network_message \<Rightarrow>
           (case subscribed of
              None \<Rightarrow> untraced Blocked
            | Some False \<Rightarrow> untraced (Done (Inl ''channel closed'', a'))
            | Some True \<Rightarrow> emit (Out (ToSubscriber network_message)) (Done (Inr (), a'))))"

text \<open>One round of \<open>run_connection_actor\<close>.\<close>

fun connection_step ::
  "'n NoiseIO \<Rightarrow> flexbuffers \<Rightarrow> ('n conn_state, conn_event, ConnectionResult, conn_out) step" where
  "connection_step io fb (Serving a) (FromHandle msg written) =
     trace_bind (conn_handle_message io fb a msg written) (\<lambda>(r, a').
       untraced (Done (if is_ok r then Serving a' else Returned)))"
| "connection_step io fb (Serving a) (FromReader (Some (Inr message)) subscribed) =
     trace_bind (handle_received io fb a message subscribed) (\<lambda>(r, a').
       untraced (bind_outcome (unwrap_result r) (\<lambda>_. Done (Serving a'))))"
| "connection_step io fb (Serving a) (FromReader (Some (Inl e)) subscribed) = ([], Done Returned)"
| "connection_step io fb (Serving a) (FromReader None subscribed) = ([], Done Returned)"
| "connection_step io fb Returned (FromHandle (ConnSend data respond_to) written) =
     ([DropTx respond_to], Done Returned)"
| "connection_step io fb Returned (FromReader item subscribed) = ([], Done Returned)"

fun conn_tx :: "conn_event \<Rightarrow> chan list" where
  "conn_tx (FromHandle (ConnSend data respond_to) written) = [respond_to]"
| "conn_tx (FromReader item subscribed) = []"

definition conn_held :: "'n conn_state \<Rightarrow> chan list" where
  "conn_held s = []"

definition run_connection_actor ::
  "'n NoiseIO \<Rightarrow> flexbuffers \<Rightarrow> 'n conn_state task \<Rightarrow> conn_event list
    \<Rightarrow> conn_effect list \<times> 'n conn_state task" where
  "run_connection_actor io fb = actor_run (connection_step io fb) conn_held conn_tx"

section \<open>The handle\<close>

definition ConnectionHandle_start ::
  "'n NoiseIO \<Rightarrow> reader \<Rightarrow> writer \<Rightarrow> 'n \<Rightarrow> bool \<Rightarrow> (bytes, 'n conn_state task \<times> reader) traced" where
  "ConnectionHandle_start io rd wr noise init =
     trace_bind (ConnectionActor_start io rd wr noise init) (\<lambda>(a, rd).
       untraced (Done (Running (Serving a), rd)))"

text \<open>\<open>send\<close> ignores whether the command was queued; if it was not, its sender is dropped.\<close>

definition ConnectionHandle_send :: "(unit + ConnectionResult) option \<Rightarrow> ConnectionResult outcome" where
  "ConnectionHandle_send answer =
     (case answer of
        None \<Rightarrow> Blocked
      | Some (Inl _) \<Rightarrow> Done (Inl ''channel closed'')
      | Some (Inr r) \<Rightarrow> Done r)"

section \<open>Steps\<close>

text \<open>What a step does, case by case.\<close>

lemma connection_send_cases:
  assumes "connection_step io fb (Serving a) (FromHandle (ConnSend x ch) w) = (es, res)"
  obtains (panic) "es = []" "res = Panicked"
  | (stuck) "es = []" "res = Blocked"
  | (hang) p f n where "flex_serialize fb x = Inr p" "build_transport_message io (conn_noise a) p = Done (f, n)"
      "w = None" "es = [Out (ToWriter f None)]" "res = Blocked"
  | (failed) p f n e where "flex_serialize fb x = Inr p" "build_transport_message io (conn_noise a) p = Done (f, n)"
      "w = Some (Inl e)" "es = [Out (ToWriter f (Some (Inl e))), DropTx ch]" "res = Done Returned"
  | (sent) p f n where "flex_serialize fb x = Inr p" "build_transport_message io (conn_noise a) p = Done (f, n)"
      "w = Some (Inr ())" "es = [Out (ToWriter f (Some (Inr ()))), Reply ch (Inr ())]" "res = Done (Serving \<lparr>conn_noise = n\<rparr>)"
proof (cases "flex_serialize fb x")
  case (Inl e)
  with assms panic show ?thesis by (simp add: handle_send_def as_bytes_def)
next
  case (Inr p)
  note ser = this
  show ?thesis
  proof (cases "build_transport_message io (conn_noise a) p")
    case (Done q)
    obtain f n where q: "q = (f, n)" by (cases q)
    obtain y where a: "a = \<lparr>conn_noise = y\<rparr>" by (cases a)
    show ?thesis
      using assms ser Done hang failed sent
      by (cases w; cases "the w") (auto simp: q a handle_send_def as_bytes_def emit_def untraced_def)
  qed (use assms ser panic stuck in \<open>auto simp: handle_send_def as_bytes_def\<close>)
qed

lemma connection_receive_cases:
  assumes "connection_step io fb (Serving a) (FromReader (Some (Inr f)) sub) = (es, res)"
  obtains (panic) "es = []" "res = Panicked"
  | (stuck) "es = []" "res = Blocked"
  | (received) p n x where "read_transport_message io (conn_noise a) f = Done (p, n)"
      "flex_from_slice fb p = Inr x" "sub = Some True"
      "es = [Out (ToSubscriber x)]" "res = Done (Serving \<lparr>conn_noise = n\<rparr>)"
proof (cases "read_transport_message io (conn_noise a) f")
  case (Done q)
  obtain p n where q: "q = (p, n)" by (cases q)
  obtain y where a: "a = \<lparr>conn_noise = y\<rparr>" by (cases a)
  show ?thesis
    using assms Done panic stuck received
    by (cases "flex_from_slice fb p"; cases sub; cases "the sub")
      (auto simp: q a handle_received_def from_bytes_def emit_def untraced_def)
qed (use assms panic stuck in \<open>auto simp: handle_received_def\<close>)

lemma connection_step_conserve:
  assumes "connection_step io fb s c = (es, Done s')"
  shows "consumed es = mset (conn_tx c)"
  using assms
proof (cases "(io, fb, s, c)" rule: connection_step.cases)
  case (1 io fb a msg w)
  obtain x ch where msg: "msg = ConnSend x ch" by (cases msg)
  from assms 1 show ?thesis
    by (auto simp: msg simp del: connection_step.simps elim!: connection_send_cases)
next
  case (2 io fb a f sub)
  from assms 2 show ?thesis
    by (auto simp del: connection_step.simps elim!: connection_receive_cases)
qed auto

lemma connection_step_unfinished:
  assumes "connection_step io fb s c = (es, r)" and "r = Panicked \<or> r = Blocked"
  shows "consumed es = {#}"
  using assms
proof (cases "(io, fb, s, c)" rule: connection_step.cases)
  case (1 io fb a msg w)
  obtain x ch where msg: "msg = ConnSend x ch" by (cases msg)
  from assms 1 show ?thesis
    by (auto simp: msg simp del: connection_step.simps elim!: connection_send_cases)
next
  case (2 io fb a f sub)
  from assms 2 show ?thesis
    by (auto simp del: connection_step.simps elim!: connection_receive_cases)
qed auto

interpretation conn: oneshot_actor "connection_step io fb" conn_held conn_tx "\<lambda>_. True"
  by unfold_locales
    (auto simp: conn_held_def dest: connection_step_conserve connection_step_unfinished)

section \<open>The channel between two connections\<close>

text \<open>The frames and messages of a trace, and the frames and commands of a list of events.\<close>

definition frames_written :: "conn_effect list \<Rightarrow> bytes list" where
  "frames_written es = List.map_filter (\<lambda>x. case x of ToWriter f w \<Rightarrow> Some f | _ \<Rightarrow> None) (outs es)"

definition frames_flushed :: "conn_effect list \<Rightarrow> bytes list" where
  "frames_flushed es =
     List.map_filter (\<lambda>x. case x of ToWriter f (Some (Inr _)) \<Rightarrow> Some f | _ \<Rightarrow> None) (outs es)"

definition forwarded :: "conn_effect list \<Rightarrow> ReliableNetworkMessage list" where
  "forwarded es = List.map_filter (\<lambda>x. case x of ToSubscriber m \<Rightarrow> Some m | _ \<Rightarrow> None) (outs es)"

definition frames_read :: "conn_event list \<Rightarrow> bytes list" where
  "frames_read evs =
     List.map_filter (\<lambda>ev. case ev of FromReader (Some (Inr f)) _ \<Rightarrow> Some f | _ \<Rightarrow> None) evs"

definition commands :: "conn_event list \<Rightarrow> ReliableNetworkMessage list" where
  "commands evs = List.map_filter (\<lambda>ev. case ev of FromHandle (ConnSend x ch) _ \<Rightarrow> Some x | _ \<Rightarrow> None) evs"

lemma trace_simps [simp]:
  "frames_written [] = []" "forwarded [] = []" "frames_read [] = []" "commands [] = []"
  "frames_flushed [] = []" "frames_flushed (es @ es') = frames_flushed es @ frames_flushed es'"
  "frames_flushed (Out (ToWriter f (Some (Inr u))) # es) = f # frames_flushed es"
  "frames_flushed (Out (ToWriter f (Some (Inl e))) # es) = frames_flushed es"
  "frames_flushed (Out (ToWriter f None) # es) = frames_flushed es"
  "frames_flushed (Out (ToSubscriber x) # es) = frames_flushed es"
  "frames_flushed (Reply ch v # es) = frames_flushed es"
  "frames_flushed (DropTx ch # es) = frames_flushed es"
  "frames_written (es @ es') = frames_written es @ frames_written es'"
  "forwarded (es @ es') = forwarded es @ forwarded es'"
  "frames_written (Out (ToWriter f w) # es) = f # frames_written es"
  "frames_written (Out (ToSubscriber x) # es) = frames_written es"
  "frames_written (Reply ch v # es) = frames_written es"
  "frames_written (DropTx ch # es) = frames_written es"
  "frames_written (map DropTx chs) = []" "forwarded (map DropTx chs) = []"
  "forwarded (Out (ToWriter f w) # es) = forwarded es"
  "forwarded (Out (ToSubscriber x) # es) = x # forwarded es"
  "forwarded (Reply ch v # es) = forwarded es"
  "forwarded (DropTx ch # es) = forwarded es"
  "frames_read (FromReader (Some (Inr f)) sub # evs) = f # frames_read evs"
  "frames_read (FromReader (Some (Inl e)) sub # evs) = frames_read evs"
  "frames_read (FromReader None sub # evs) = frames_read evs"
  "frames_read (FromHandle msg w # evs) = frames_read evs"
  "commands (FromHandle (ConnSend x ch) w # evs) = x # commands evs"
  "commands (FromReader item sub # evs) = commands evs"
  by (simp_all add: frames_written_def frames_flushed_def forwarded_def frames_read_def commands_def
      map_filter_simps map_filter_def)

lemma frames_written_iff: "f \<in> set (frames_written es) \<longleftrightarrow> (\<exists>w. Out (ToWriter f w) \<in> set es)"
  by (induction es rule: outs.induct)
    (auto simp: frames_written_def map_filter_simps split: conn_out.splits)

lemma trace_outs:
  assumes "outs es = outs es'"
  shows "frames_written es = frames_written es'" "frames_flushed es = frames_flushed es'"
    "forwarded es = forwarded es'"
  using assms by (simp_all add: frames_written_def frames_flushed_def forwarded_def)

lemma run_connection_ended:
  "run_connection_actor io fb Crashed evs = (es, t) \<Longrightarrow> outs es = [] \<and> t = Crashed"
  "run_connection_actor io fb (Running Returned) evs = (es, t) \<Longrightarrow> outs es = [] \<and> t = Running Returned"
proof -
  show "outs es = [] \<and> t = Crashed" if "run_connection_actor io fb Crashed evs = (es, t)"
    using that by (auto simp: run_connection_actor_def actor_run_Crashed)
  show "outs es = [] \<and> t = Running Returned" if "run_connection_actor io fb (Running Returned) evs = (es, t)"
    using that
  proof (induction evs arbitrary: es)
    case (Cons ev evs)
    then show ?case
      by (cases ev rule: conn_tx.cases)
        (auto simp: run_connection_actor_def split: prod.splits)
  qed (simp add: run_connection_actor_def)
qed

text \<open>A run of a serving connection, one event at a time.\<close>

lemma run_connection_Cons:
  assumes "run_connection_actor io fb (Running (Serving a)) (ev # evs) = (es, t)"
  obtains (ends) es1 r where "connection_step io fb (Serving a) ev = (es1, r)"
      "outs es = outs es1" "set es1 \<subseteq> set es"
      "\<And>a'. r \<noteq> Done (Serving a')" "\<And>a'. t \<noteq> Running (Serving a')"
  | (goes_on) es1 a' es2 where "connection_step io fb (Serving a) ev = (es1, Done (Serving a'))"
      "run_connection_actor io fb (Running (Serving a')) evs = (es2, t)" "es = es1 @ es2"
proof -
  obtain es1 r where step: "connection_step io fb (Serving a) ev = (es1, r)" by force
  let ?run = "\<lambda>s. run_connection_actor io fb (s :: 'a conn_state task) evs"
  consider (serves) a' where "r = Done (Serving a')" | (returns) "r = Done Returned"
    | (panics) "r = Panicked" | (blocks) "r = Blocked"
    by (cases r; cases "case r of Done s \<Rightarrow> s") auto
  then show ?thesis
  proof cases
    case serves
    with assms step goes_on show ?thesis
      by (auto simp: run_connection_actor_def split: prod.splits)
  next
    case returns
    obtain es2 t2 where rest: "?run (Running Returned) = (es2, t2)" by force
    with assms step returns have "es = es1 @ es2" "t = t2"
      by (auto simp: run_connection_actor_def split: prod.splits)
    with step returns run_connection_ended(2) [OF rest] ends show ?thesis by auto
  next
    case panics
    obtain es2 t2 where rest: "?run Crashed = (es2, t2)" by force
    with assms step panics have "es = es1 @ map DropTx (conn_held (Serving a) @ conn_tx ev) @ es2" "t = t2"
      by (auto simp: run_connection_actor_def split: prod.splits)
    with step panics run_connection_ended(1) [OF rest] ends show ?thesis by auto
  next
    case blocks
    with assms step ends show ?thesis by (auto simp: run_connection_actor_def)
  qed
qed

text \<open>The sending end: the frames it writes encrypt its first commands, in order. The list \<open>q\<close>
  pairs each frame with its payload.\<close>

definition carries :: "flexbuffers \<Rightarrow> (bytes \<times> bytes) list \<Rightarrow> ReliableNetworkMessage list \<Rightarrow> bool" where
  "carries fb q xs \<longleftrightarrow> list_all2 (\<lambda>(p, f) x. flex_serialize fb x = Inr p) q xs"

lemma connection_step_produces:
  assumes "connection_step io fb (Serving a) ev = (es, res)"
  obtains (silent) "frames_written es = []"
      "\<And>a' q. res = Done (Serving a') \<Longrightarrow> produces io (conn_noise a') q \<Longrightarrow> produces io (conn_noise a) q"
      "\<And>a' evs. res = Done (Serving a') \<Longrightarrow> commands (ev # evs) = commands evs"
  | (writes) p f n x where "frames_written es = [f]" "flex_serialize fb x = Inr p"
      "build_transport_message io (conn_noise a) p = Done (f, n)"
      "\<And>evs. commands (ev # evs) = x # commands evs" "\<And>a'. res = Done (Serving a') \<Longrightarrow> conn_noise a' = n"
proof (cases ev rule: conn_tx.cases)
  case (1 x ch w)
  from assms [unfolded 1] show ?thesis
    by (cases rule: connection_send_cases) (use 1 silent writes in auto)
next
  case (2 item sub)
  show ?thesis
  proof (cases "\<exists>f. item = Some (Inr f)")
    case True
    then obtain f where item: "item = Some (Inr f)" by blast
    from assms [unfolded 2 item] show ?thesis
    proof (cases rule: connection_receive_cases)
      case (received p n x)
      with 2 produces_read [OF received(1)] show ?thesis by (intro silent) auto
    qed (use 2 silent in auto)
  next
    case False
    then have "connection_step io fb (Serving a) ev = ([], Done Returned)"
      by (cases item; cases "the item") (auto simp: 2)
    with assms show ?thesis by (intro silent) auto
  qed
qed

lemma connection_produces:
  assumes "run_connection_actor io fb (Running (Serving a)) evs = (es, t)"
  shows "\<exists>q xs. produces io (conn_noise a) q \<and> map snd q = frames_written es
     \<and> carries fb q xs \<and> prefix xs (commands evs)"
  using assms
proof (induction evs arbitrary: a es)
  case Nil
  then show ?case
    by (auto simp: run_connection_actor_def carries_def intro: produces_nil exI [of _ "[]"])
next
  case (Cons ev evs)
  have ends: ?case if "connection_step io fb (Serving a) ev = (es1, res)"
    and "outs es = outs es1" for es1 res
    using that(1)
  proof (cases rule: connection_step_produces)
    case silent
    with trace_outs(1) [OF that(2)] show ?thesis
      by (intro exI [of _ "[]"]) (simp add: carries_def produces_nil)
  next
    case (writes p f n x)
    with trace_outs(1) [OF that(2)] show ?thesis
      by (intro exI [of _ "[(p, f)]"] exI [of _ "[x]"])
        (auto simp: carries_def intro: produces.intros)
  qed
  from Cons.prems show ?case
  proof (cases rule: run_connection_Cons)
    case (goes_on es1 a' es2)
    from Cons.IH [OF goes_on(2)] obtain q xs where q: "produces io (conn_noise a') q"
      "map snd q = frames_written es2" "carries fb q xs" "prefix xs (commands evs)" by blast
    from goes_on(1) show ?thesis
    proof (cases rule: connection_step_produces)
      case silent
      from silent(1) silent(2) [OF refl q(1)] silent(3) [OF refl, of evs] q goes_on(3) show ?thesis
        by (intro exI [of _ q] exI [of _ xs]) simp
    next
      case (writes p f n x)
      from writes(1-4) writes(5) [OF refl] q goes_on(3) show ?thesis
        by (intro exI [of _ "(p, f) # q"] exI [of _ "x # xs"])
          (auto simp: carries_def intro: produces_write)
    qed
  qed (rule ends)
qed

lemma connection_step_serves:
  assumes "connection_step io fb (Serving a) ev = (es, Done (Serving a'))"
  obtains (sent) p f n where "build_transport_message io (conn_noise a) p = Done (f, n)"
      "conn_noise a' = n" "forwarded es = []" "\<And>evs. frames_read (ev # evs) = frames_read evs"
  | (received) f p n x where "read_transport_message io (conn_noise a) f = Done (p, n)"
      "flex_from_slice fb p = Inr x" "conn_noise a' = n" "forwarded es = [x]"
      "\<And>evs. frames_read (ev # evs) = f # frames_read evs"
proof (cases "(io, fb, Serving a, ev)" rule: connection_step.cases)
  case (1 io' fb' a'' msg w)
  obtain x ch where msg: "msg = ConnSend x ch" by (cases msg)
  from assms 1 sent show ?thesis
    by (auto simp: msg simp del: connection_step.simps elim!: connection_send_cases)
next
  case (2 io' fb' a'' f sub)
  from assms 2 received show ?thesis
    by (auto simp del: connection_step.simps elim!: connection_receive_cases)
qed (use assms in auto)

lemma connection_ends_silently:
  assumes "connection_step io fb (Serving a) ev = (es, r)" and "\<And>a'. r \<noteq> Done (Serving a')"
  shows "forwarded es = []"
  using assms
proof (cases "(io, fb, Serving a, ev)" rule: connection_step.cases)
  case (1 io fb a msg w)
  obtain x ch where msg: "msg = ConnSend x ch" by (cases msg)
  from assms 1 show ?thesis
    by (auto simp: msg simp del: connection_step.simps elim!: connection_send_cases)
next
  case (2 io fb a f sub)
  from assms 2 show ?thesis
    by (auto simp del: connection_step.simps elim!: connection_receive_cases)
qed auto

text \<open>The receiving end: frames that arrive in the order they were produced are forwarded as the
  messages they carry, in that order, whatever the connection itself sends in between. As long
  as the connection serves, none is missing.\<close>

context noise_channel
begin

lemma connection_forwards:
  assumes "flex_roundtrip fb" and "run_connection_actor io fb (Running (Serving b)) evs = (es, t)"
    and "paired s (conn_noise b)" and "produces io s q" and "carries fb q xs"
    and "prefix (frames_read evs) (map snd q)"
  shows "prefix (forwarded es) xs
     \<and> (\<forall>b'. t = Running (Serving b') \<longrightarrow> forwarded es = take (length (frames_read evs)) xs)"
  using assms(2-)
proof (induction evs arbitrary: b es s q xs)
  case Nil
  then show ?case by (simp add: run_connection_actor_def)
next
  case (Cons ev evs)
  from Cons.prems(1) show ?case
  proof (cases rule: run_connection_Cons)
    case (ends es1 r)
    with connection_ends_silently [OF ends(1,4)] trace_outs(3) [OF ends(2)] show ?thesis by simp
  next
    case (goes_on es1 b' es2)
    from goes_on(1) show ?thesis
    proof (cases rule: connection_step_serves)
      case (sent p f n)
      from receiver_writes [OF Cons.prems(2) sent(1)] sent(2) have "paired s (conn_noise b')" by simp
      from Cons.IH [OF goes_on(2) this Cons.prems(3,4)] Cons.prems(5) sent goes_on(3)
      show ?thesis by simp
    next
      case (received f p' n' x')
      with Cons.prems(5) obtain p q' where q: "q = (p, f) # q'" by (cases q) auto
      with Cons.prems(4) obtain x xs' where xs: "xs = x # xs'" and ser: "flex_serialize fb x = Inr p"
        and "carries fb q' xs'" by (auto simp: carries_def list_all2_Cons1)
      from next_in_flight [OF Cons.prems(3) q Cons.prems(2)] obtain s' n
        where rd: "read_transport_message io (conn_noise b) f = Done (p, n)"
          and inv: "paired s' n" "produces io s' q'" by blast
      with received ser assms(1) have "x' = x" "conn_noise b' = n" by (auto simp: flex_roundtrip_def)
      with Cons.IH [OF goes_on(2) _ inv(2) \<open>carries fb q' xs'\<close>] inv(1) Cons.prems(5) received goes_on(3)
      show ?thesis by (auto simp: q xs)
    qed
  qed
qed

end

lemma connection_reply_origin:
  assumes "run_connection_actor io fb (Running (Serving a)) evs = (es, t)" and "Reply ch (Inr ()) \<in> set es"
  obtains y p n f n' where "FromHandle (ConnSend y ch) (Some (Inr ())) \<in> set evs"
    and "flex_serialize fb y = Inr p" and "build_transport_message io n p = Done (f, n')"
    and "f \<in> set (frames_written es)"
proof -
  let ?run = "actor_run (connection_step io fb) conn_held conn_tx (Running (Serving a))"
  from assms have "Reply ch (Inr ()) \<in> set (fst (?run evs))" by (simp add: run_connection_actor_def)
  then obtain before c after es1 s1 es2 r where evs: "evs = before @ c # after"
    and before: "?run before = (es1, Running s1)"
    and step: "connection_step io fb s1 c = (es2, r)" and reply: "Reply ch (Inr ()) \<in> set es2"
    by (rule actor_run_origin) simp
  from actor_run_step_effects [OF before step, of after] assms(1) evs
  have sub: "set es2 \<subseteq> set es" by (simp add: run_connection_actor_def)
  show ?thesis
  proof (cases "(io, fb, s1, c)" rule: connection_step.cases)
    case (1 io' fb' a1 msg w)
    obtain y ch' where msg: "msg = ConnSend y ch'" by (cases msg)
    from step [unfolded 1 msg] 1 have "connection_step io fb (Serving a1) (FromHandle (ConnSend y ch') w) = (es2, r)"
      by (simp add: msg)
    then show ?thesis
    proof (cases rule: connection_send_cases)
      case (sent p f n)
      with sub reply 1 evs msg show ?thesis
        by (intro that [OF _ sent(1,2)]) (auto simp: frames_written_iff)
    qed (use reply in auto)
  next
    case (2 io' fb' a1 f sub)
    with step have "connection_step io fb (Serving a1) (FromReader (Some (Inr f)) sub) = (es2, r)" by simp
    then show ?thesis
      by (cases rule: connection_receive_cases) (use reply in auto)
  qed (use step reply in auto)
qed

text \<open>The frames whose write succeeded carry the first commands, in order, and these were answered \<open>Ok\<close>.\<close>

lemma connection_step_flushes:
  assumes "connection_step io fb (Serving a) ev = (es, res)"
  obtains (silent) "frames_flushed es = []"
      "\<And>a' q. res = Done (Serving a') \<Longrightarrow> produces io (conn_noise a') q \<Longrightarrow> produces io (conn_noise a) q"
      "\<And>a' evs. res = Done (Serving a') \<Longrightarrow> commands (ev # evs) = commands evs"
  | (writes) p f n x ch where "ev = FromHandle (ConnSend x ch) (Some (Inr ()))"
      "es = [Out (ToWriter f (Some (Inr ()))), Reply ch (Inr ())]" "flex_serialize fb x = Inr p"
      "build_transport_message io (conn_noise a) p = Done (f, n)" "res = Done (Serving \<lparr>conn_noise = n\<rparr>)"
proof (cases ev rule: conn_tx.cases)
  case (1 x ch w)
  from assms [unfolded 1] show ?thesis
    by (cases rule: connection_send_cases) (use 1 silent writes in auto)
next
  case (2 item sub)
  from assms show ?thesis
  proof (cases rule: connection_step_produces)
    case silent
    from assms 2 have "frames_flushed es = []"
      by (cases "(io, fb, Serving a, ev)" rule: connection_step.cases)
        (auto simp del: connection_step.simps(2) elim!: connection_receive_cases)
    with silent show ?thesis by (intro that(1)) auto
  next
    case (writes p f n x)
    from writes(4) [of "[]"] 2 show ?thesis by simp
  qed
qed

lemma connection_flushes:
  assumes "run_connection_actor io fb (Running (Serving a)) evs = (es, t)"
  shows "\<exists>q xs. produces io (conn_noise a) q \<and> map snd q = frames_flushed es
     \<and> carries fb q xs \<and> prefix xs (commands evs)
     \<and> (\<forall>x \<in> set xs. \<exists>ch w. FromHandle (ConnSend x ch) w \<in> set evs \<and> Reply ch (Inr ()) \<in> set es)"
  using assms
proof (induction evs arbitrary: a es)
  case Nil
  then show ?case
    by (auto simp: run_connection_actor_def carries_def intro: produces_nil exI [of _ "[]"])
next
  case (Cons ev evs)
  from Cons.prems show ?case
  proof (cases rule: run_connection_Cons)
    case (ends es1 r)
    from ends(1) show ?thesis
    proof (cases rule: connection_step_flushes)
      case silent
      with trace_outs(2) [OF ends(2)] show ?thesis
        by (intro exI [of _ "[]"]) (simp add: carries_def produces_nil)
    qed (use ends(4) in simp)
  next
    case (goes_on es1 a' es2)
    from Cons.IH [OF goes_on(2)] obtain q xs where q: "produces io (conn_noise a') q"
      "map snd q = frames_flushed es2" "carries fb q xs" "prefix xs (commands evs)"
      and ok: "\<forall>x \<in> set xs. \<exists>ch w. FromHandle (ConnSend x ch) w \<in> set evs \<and> Reply ch (Inr ()) \<in> set es2"
      by blast
    from goes_on(1) show ?thesis
    proof (cases rule: connection_step_flushes)
      case silent
      from silent(1) silent(2) [OF refl q(1)] silent(3) [OF refl, of evs] q ok goes_on(3) show ?thesis
        by (intro exI [of _ q] exI [of _ xs]) fastforce
    next
      case (writes p f n x ch)
      with q have "produces io (conn_noise a) ((p, f) # q)" by (auto intro: produces_write)
      with writes q ok goes_on(3) show ?thesis
        by (intro exI [of _ "(p, f) # q"] exI [of _ "x # xs"]) (fastforce simp: carries_def)
    qed
  qed
qed

lemma paired_connections_deliver:
  assumes "flex_roundtrip fb" and "handlers_paired c sh rh (conn_noise a) (conn_noise b)"
    and "run_connection_actor (NoiseHandler_io c) fb (Running (Serving a)) evs = (es, t)"
    and "run_connection_actor (NoiseHandler_io c) fb (Running (Serving b)) evs' = (es', t')"
    and "prefix (frames_read evs') (frames_written es)"
  shows "prefix (forwarded es') (commands evs)
     \<and> (\<forall>b'. t' = Running (Serving b') \<longrightarrow> forwarded es' = take (length (frames_read evs')) (commands evs))"
proof -
  from connection_produces [OF assms(3)] obtain q xs
    where q: "produces (NoiseHandler_io c) (conn_noise a) q" "map snd q = frames_written es"
      and xs: "carries fb q xs" "prefix xs (commands evs)" by blast
  from assms(5) q(2) have read: "prefix (frames_read evs') (map snd q)" by simp
  note forwards = nh.connection_forwards [OF assms(1,4,2) q(1) xs(1) read]
  from xs(1) have "length xs = length q" by (auto simp: carries_def dest: list_all2_lengthD)
  with prefix_length_le [OF read] xs(2)
  have "take (length (frames_read evs')) xs = take (length (frames_read evs')) (commands evs)"
    by (auto simp: prefix_def)
  with forwards xs(2) show ?thesis by (metis prefix_order.trans)
qed

section \<open>Properties\<close>

text \<open>A codec for the concrete instances below. It covers two messages and rejects the rest.\<close>

definition ack_codec :: flexbuffers where
  "ack_codec =
     \<lparr>flex_serialize = (\<lambda>x. if x = Ack 1 then Inr [1] else if x = Ack 2 then Inr [2] else Inl ''unsupported''),
      flex_from_slice = (\<lambda>b. if b = [1] then Inr (Ack 1) else if b = [2] then Inr (Ack 2) else Inl ''invalid'')\<rparr>"

lemma ack_codec_roundtrip: "flex_roundtrip ack_codec"
  by (auto simp: flex_roundtrip_def ack_codec_def split: if_splits)

text \<open>C12. Two connections whose handlers are paired form a reliable, ordered channel over a byte
  stream that keeps the order of frames: what the receiving end forwards to its subscriber is a
  prefix of the messages the sending end was given, unchanged and in order. While the receiving
  end serves, it has forwarded the message of every frame it read. Both ends may send and
  receive other messages in any interleaving.\<close>

theorem connections_deliver_in_order:
  assumes "flex_roundtrip fb" and "handlers_paired c sh rh (conn_noise a) (conn_noise b)"
    and "run_connection_actor (NoiseHandler_io c) fb (Running (Serving a)) evs = (es, t)"
    and "run_connection_actor (NoiseHandler_io c) fb (Running (Serving b)) evs' = (es', t')"
    and "prefix (frames_read evs') (frames_written es)"
  shows "prefix (forwarded es') (commands evs)
     \<and> (\<forall>b'. t' = Running (Serving b') \<longrightarrow> forwarded es' = take (length (frames_read evs')) (commands evs))"
  using assms by (rule paired_connections_deliver)

theorem connections_deliver_in_order_witness:
  "\<exists>es t es' t'.
     run_connection_actor (NoiseHandler_io counting_crates) ack_codec
       (Running (Serving \<lparr>conn_noise = \<lparr>handshake_state = None, transport_state = Some (0, 0), noise_initiator = True\<rparr>\<rparr>))
       [FromHandle (ConnSend (Ack 1) 7) (Some (Inr ())), FromHandle (ConnSend (Ack 2) 8) (Some (Inr ()))] = (es, t)
     \<and> run_connection_actor (NoiseHandler_io counting_crates) ack_codec
       (Running (Serving \<lparr>conn_noise = \<lparr>handshake_state = None, transport_state = Some (0, 0), noise_initiator = False\<rparr>\<rparr>))
       [FromReader (Some (Inr (1 # tag 0))) (Some True)] = (es', t')
     \<and> prefix (forwarded es') [Ack 1, Ack 2]"
proof -
  let ?n = "\<lambda>init. \<lparr>handshake_state = None, transport_state = Some (0, 0), noise_initiator = init\<rparr>
      :: (nat, nat \<times> nat) NoiseHandler"
    and ?evs = "[FromHandle (ConnSend (Ack 1) 7) (Some (Inr ())), FromHandle (ConnSend (Ack 2) 8) (Some (Inr ()))]"
    and ?evs' = "[FromReader (Some (Inr (1 # tag 0))) (Some True)]"
  obtain es t where runA: "run_connection_actor (NoiseHandler_io counting_crates) ack_codec
      (Running (Serving \<lparr>conn_noise = ?n True\<rparr>)) ?evs = (es, t)" by force
  obtain es' t' where runB: "run_connection_actor (NoiseHandler_io counting_crates) ack_codec
      (Running (Serving \<lparr>conn_noise = ?n False\<rparr>)) ?evs' = (es', t')" by force
  from runA have "frames_written es = [1 # tag 0, 2 # tag 1]"
    by (auto simp: run_connection_actor_def handle_send_def as_bytes_def ack_codec_def
        NoiseHandler_build_transport_message_def counting_buffers emit_def untraced_def)
  then have "prefix (frames_read ?evs') (frames_written es)" by simp
  moreover have "handlers_paired counting_crates fst snd (?n True) (?n False)"
    by (simp add: handlers_paired_def counting_transport)
  ultimately have "prefix (forwarded es') (commands ?evs)"
    using connections_deliver_in_order [where sh = fst and rh = snd, OF ack_codec_roundtrip _ runA runB] by simp
  with runA runB show ?thesis by simp
qed

text \<open>C20. \<open>send\<close> on a connection always returns once the actor has dealt with the command, whether it
  was served, had failed, or had returned before, provided no write hangs; and \<open>Ok\<close> means that
  the message was serialized and its frame written without error.\<close>

theorem connection_send_returns:
  assumes "run_connection_actor io fb (Running (Serving a)) evs = (es, t)" and "t \<noteq> Stuck"
    and "FromHandle (ConnSend x ch) w \<in> set evs"
  shows "ConnectionHandle_send (oneshot_await es ch) \<noteq> Blocked
     \<and> (ConnectionHandle_send (oneshot_await es ch) = Done (Inr ()) \<longrightarrow>
          (\<exists>y p n f n'. FromHandle (ConnSend y ch) (Some (Inr ())) \<in> set evs
             \<and> flex_serialize fb y = Inr p \<and> build_transport_message io n p = Done (f, n')
             \<and> f \<in> set (frames_written es)))"
proof (intro conjI impI)
  have run: "actor_run (connection_step io fb) conn_held conn_tx (Running (Serving a)) evs = (es, t)"
    using assms(1) by (simp add: run_connection_actor_def)
  have "consumed es = mset (concat (map conn_tx evs))"
    using conn.run_conserve [OF _ run assms(2)] by (simp add: conn_held_def split: task.splits)
  moreover from assms(3) have "ch \<in> set (concat (map conn_tx evs))" by force
  ultimately have "ch \<in># consumed es" by simp
  then show "ConnectionHandle_send (oneshot_await es ch) \<noteq> Blocked"
    by (auto simp: ConnectionHandle_send_def oneshot_await_None split: option.splits sum.splits)
  assume "ConnectionHandle_send (oneshot_await es ch) = Done (Inr ())"
  then have "Reply ch (Inr ()) \<in> set es"
    by (auto simp: ConnectionHandle_send_def dest: oneshot_await_Reply split: option.splits sum.splits)
  from connection_reply_origin [OF assms(1) this]
  show "\<exists>y p n f n'. FromHandle (ConnSend y ch) (Some (Inr ())) \<in> set evs
      \<and> flex_serialize fb y = Inr p \<and> build_transport_message io n p = Done (f, n')
      \<and> f \<in> set (frames_written es)"
    by metis
qed

theorem connection_send_returns_witness:
  "ConnectionHandle_send (oneshot_await (fst (run_connection_actor (NoiseHandler_io counting_crates) ack_codec
       (Running (Serving \<lparr>conn_noise = \<lparr>handshake_state = None, transport_state = Some (0, 0), noise_initiator = True\<rparr>\<rparr>))
       [FromHandle (ConnSend (Ack 1) 7) (Some (Inl ''reset'')), FromHandle (ConnSend (Ack 2) 8) None])) 8) \<noteq> Blocked"
proof -
  let ?n = "\<lparr>handshake_state = None, transport_state = Some (0, 0), noise_initiator = True\<rparr>
      :: (nat, nat \<times> nat) NoiseHandler"
    and ?evs = "[FromHandle (ConnSend (Ack 1) 7) (Some (Inl ''reset'')), FromHandle (ConnSend (Ack 2) 8) None]"
  obtain es t where run: "run_connection_actor (NoiseHandler_io counting_crates) ack_codec
      (Running (Serving \<lparr>conn_noise = ?n\<rparr>)) ?evs = (es, t)" by force
  then have "t \<noteq> Stuck"
    by (auto simp: run_connection_actor_def handle_send_def as_bytes_def ack_codec_def
        NoiseHandler_build_transport_message_def counting_buffers emit_def untraced_def)
  with connection_send_returns [OF run, of "Ack 2" 8 None] run show ?thesis by simp
qed

text \<open>C34. Exactly these frames crash the task that reads them: one that does not decrypt, one whose
  payload does not parse, and one that arrives after the subscriber is gone. The peer can cause
  the first two with a single frame; the error of the handler is unwrapped.\<close>

theorem connection_read_panics_iff:
  "snd (connection_step io fb (Serving a) (FromReader (Some (Inr f)) sub)) = Panicked \<longleftrightarrow>
     read_transport_message io (conn_noise a) f = Panicked
     \<or> (\<exists>p n. read_transport_message io (conn_noise a) f = Done (p, n)
          \<and> ((\<exists>e. flex_from_slice fb p = Inl e) \<or> (\<exists>x. flex_from_slice fb p = Inr x) \<and> sub = Some False))"
proof (cases "read_transport_message io (conn_noise a) f")
  case (Done q)
  then show ?thesis
    by (cases q; cases "flex_from_slice fb (fst q)"; cases sub; cases "the sub")
      (auto simp: handle_received_def from_bytes_def emit_def untraced_def)
qed (auto simp: handle_received_def)

end
