(* ===== verification/EchoBroadcast.thy ===== *)
theory EchoBroadcast
  imports Actors Messages MembershipActor ReliableSender
begin

text \<open>
  \<open>src/src/node/echo_broadcast/mod.rs\<close> and its \<open>service.rs\<close>: the actor that sends a message to all
  members and answers the caller once it has an echo from each of them.

  An event is a command together with the answers its environment gives: what awaiting
  \<open>reliable_sender.send(..)\<close> yields for each handle, \<open>None\<close> if it never returns. The members of a
  \<open>Send\<close> are listed in the order the loop iterates over the map.
\<close>

section \<open>The actor\<close>

type_synonym EchosMap = "(MessageId, (string, bool) hashmap) hashmap"

datatype EchoBroadcastMessage =
    EchoSend Message ReliableSenderMap chan
  | Echo Message

type_synonym net = "handle \<Rightarrow> ConnectionResult option"
type_synonym echo_event = "EchoBroadcastMessage \<times> net"

text \<open>The output \<open>(h, m)\<close> is a call of \<open>send(m)\<close> on the reliable sender \<open>h\<close>.\<close>

type_synonym echo_effect = "(ConnectionResult, handle \<times> Message) effect"

record EchoBroadcastActor =
  reliable_senders :: "(MessageId, ReliableSenderMap) hashmap"
  message_echos :: EchosMap
  message_client_txs :: "(MessageId, chan) hashmap"

definition EchoBroadcastActor_start :: EchoBroadcastActor where
  "EchoBroadcastActor_start =
     \<lparr>reliable_senders = [], message_echos = [], message_client_txs = []\<rparr>"

text \<open>\<open>entry(message_id).or_default()\<close>, then \<open>entry(member).or_insert(false)\<close> in it.\<close>

definition register_member :: "MessageId \<Rightarrow> string \<Rightarrow> EchosMap \<Rightarrow> EchosMap" where
  "register_member message_id member echos =
     (let message_echos = (case hm_get echos message_id of None \<Rightarrow> [] | Some m \<Rightarrow> m)
      in hm_insert message_id (hm_or_insert member False message_echos) echos)"

text \<open>The loop over the members: it stops at the first failed send (\<open>False\<close>).\<close>

fun send_to_members ::
  "net \<Rightarrow> Message \<Rightarrow> MessageId \<Rightarrow> EchosMap \<Rightarrow> ReliableSenderMap
    \<Rightarrow> echo_effect list \<times> (bool \<times> EchosMap) outcome" where
  "send_to_members net data message_id echos [] = ([], Done (True, echos))"
| "send_to_members net data message_id echos ((member, reliable_sender) # peers) =
     (case net reliable_sender of
        None \<Rightarrow> ([Out (reliable_sender, data)], Blocked)
      | Some (Inl e) \<Rightarrow> ([Out (reliable_sender, data)], Done (False, echos))
      | Some (Inr u) \<Rightarrow>
          (let (es, r) = send_to_members net data message_id
                           (register_member message_id member echos) peers
           in (Out (reliable_sender, data) # es, r)))"

definition send_message ::
  "EchoBroadcastActor \<Rightarrow> Message \<Rightarrow> ReliableSenderMap \<Rightarrow> chan \<Rightarrow> net
    \<Rightarrow> echo_effect list \<times> (ConnectionResult \<times> EchoBroadcastActor) outcome" where
  "send_message a data peers respond_to net =
     (case get_message_id data of
        None \<Rightarrow> ([], Panicked)
      | Some message_id \<Rightarrow>
          (case send_to_members net data message_id (message_echos a) peers of
             (es, Blocked) \<Rightarrow> (es, Blocked)
           | (es, Panicked) \<Rightarrow> (es, Panicked)
           | (es, Done (False, echos)) \<Rightarrow>
               (es @ [Reply respond_to (Inl ''Error sending using reliable sender'')],
                Done (Inl ''Error sending message using reliable sender'', a\<lparr>message_echos := echos\<rparr>))
           | (es, Done (True, echos)) \<Rightarrow>
               (case hm_get echos message_id of
                  None \<Rightarrow> (es, Panicked)
                | Some m \<Rightarrow>
                    (es @ (case hm_get (message_client_txs a) message_id of
                             None \<Rightarrow> [] | Some old \<Rightarrow> [DropTx old]),
                     Done (Inr (),
                       a\<lparr>reliable_senders := hm_insert message_id peers (reliable_senders a),
                         message_echos := hm_insert message_id
                           (hm_insert (get_sender_id data) True m) echos,
                         message_client_txs := hm_insert message_id respond_to
                           (message_client_txs a)\<rparr>)))))"

definition echo_received_for_all :: "EchoBroadcastActor \<Rightarrow> MessageId \<Rightarrow> bool outcome" where
  "echo_received_for_all a message_id =
     bind_outcome (unwrap (hm_get (message_echos a) message_id))
       (\<lambda>m. Done (list_all (\<lambda>(sender_id, status). status) m))"

definition add_echo :: "EchoBroadcastActor \<Rightarrow> MessageId \<Rightarrow> string \<Rightarrow> EchoBroadcastActor" where
  "add_echo a message_id sender_id =
     (case hm_get (message_echos a) message_id of
        Some echos \<Rightarrow>
          a\<lparr>message_echos := hm_insert message_id (hm_insert sender_id True echos) (message_echos a)\<rparr>
      | None \<Rightarrow>
          a\<lparr>message_echos := hm_insert message_id [(sender_id, True)] (message_echos a)\<rparr>)"

definition handle_received_echo ::
  "EchoBroadcastActor \<Rightarrow> Message \<Rightarrow> echo_effect list \<times> EchoBroadcastActor outcome" where
  "handle_received_echo a data =
     (case get_message_id data of
        None \<Rightarrow> ([], Panicked)
      | Some message_id \<Rightarrow>
          (let a1 = add_echo a message_id (get_sender_id data)
           in case echo_received_for_all a1 message_id of
                Panicked \<Rightarrow> ([], Panicked)
              | Blocked \<Rightarrow> ([], Blocked)
              | Done False \<Rightarrow> ([], Done a1)
              | Done True \<Rightarrow>
                  (case hm_get (message_client_txs a1) message_id of
                     None \<Rightarrow> ([], Done a1)
                   | Some respond_to \<Rightarrow>
                       ([Reply respond_to (Inr ())],
                        Done (a1\<lparr>message_client_txs :=
                                   hm_remove message_id (message_client_txs a1)\<rparr>)))))"

text \<open>\<open>handle_message\<close>: the result of \<open>send_message\<close> is ignored.\<close>

fun echo_step :: "(EchoBroadcastActor, echo_event, ConnectionResult, handle \<times> Message) step" where
  "echo_step a (EchoSend data peers respond_to, net) =
     (case send_message a data peers respond_to net of
        (es, Done (r, a')) \<Rightarrow> (es, Done a')
      | (es, Panicked) \<Rightarrow> (es, Panicked)
      | (es, Blocked) \<Rightarrow> (es, Blocked))"
| "echo_step a (Echo data, net) = handle_received_echo a data"

fun echo_tx :: "echo_event \<Rightarrow> chan list" where
  "echo_tx (EchoSend data peers respond_to, net) = [respond_to]"
| "echo_tx (Echo data, net) = []"

definition echo_held :: "EchoBroadcastActor \<Rightarrow> chan list" where
  "echo_held a = map snd (message_client_txs a)"

text \<open>The task \<open>EchoBroadcastHandle::start\<close> spawns.\<close>

definition run_echo_broadcast ::
  "EchoBroadcastActor task \<Rightarrow> echo_event list \<Rightarrow> echo_effect list \<times> EchoBroadcastActor task" where
  "run_echo_broadcast = actor_run echo_step echo_held echo_tx"

section \<open>The handle and the service\<close>

definition EchoBroadcastHandle_send :: "bool \<Rightarrow> (unit + ConnectionResult) option \<Rightarrow> ConnectionResult outcome" where
  "EchoBroadcastHandle_send queued answer =
     (if \<not> queued then Done (Inl ''Connection error'')
      else case answer of
             None \<Rightarrow> Blocked
           | Some (Inl _) \<Rightarrow> Done (Inl ''channel closed'')
           | Some (Inr result) \<Rightarrow> Done (if is_ok result then Inr () else Inl ''Broadcast error''))"

text \<open>\<open>receive\<close> queues an echo for the actor.\<close>

definition EchoBroadcastHandle_receive :: "bool \<Rightarrow> Message \<Rightarrow> MessageId \<Rightarrow> EchoBroadcastMessage option \<times> ConnectionResult" where
  "EchoBroadcastHandle_receive queued message message_id =
     (if queued then (Some (Echo message), Inr ())
      else (None, Inl ''Failed to send receive to echo broadcast actor''))"

definition EchoBroadcast_poll_ready :: "('e + unit) poll \<Rightarrow> ('b + unit) poll" where
  "EchoBroadcast_poll_ready inner_poll = (case inner_poll of Ready _ \<Rightarrow> Ready (Inr ()) | Pending \<Rightarrow> Pending)"

text \<open>The trace holds the call of \<open>send\<close>: the message and the members it goes to.\<close>

definition EchoBroadcast_call ::
  "(Message \<Rightarrow> service_result outcome) \<Rightarrow> (string + ReliableSenderMap) outcome
    \<Rightarrow> (Message \<Rightarrow> ReliableSenderMap \<Rightarrow> ConnectionResult outcome) \<Rightarrow> Message
    \<Rightarrow> (Message \<times> ReliableSenderMap, ConnectionResult) traced" where
  "EchoBroadcast_call inner get_members send msg =
     trace_bind (untraced (inner msg)) (\<lambda>response_message.
       case response_message of
         Inr (Some msg') \<Rightarrow>
           trace_bind (untraced get_members) (\<lambda>r.
           trace_bind (untraced (unwrap_result r)) (\<lambda>peers.
           trace_bind (emit (msg', peers) (send msg' peers)) (\<lambda>r.
           untraced (Done (if is_ok r then Inr () else Inl ''Error sending echo broadcast'')))))
       | _ \<Rightarrow> untraced (Done (Inl ''Unknown message type in echo broadcast handle'')))"

section \<open>Well-formedness and the caller contract\<close>

definition echo_wf :: "EchoBroadcastActor \<Rightarrow> bool" where
  "echo_wf a \<longleftrightarrow> hm_wf (message_client_txs a) \<and>
     (\<forall>mid m. hm_get (message_echos a) mid = Some m \<longrightarrow> hm_wf m)"

abbreviation echos_wf :: "EchosMap \<Rightarrow> bool" where
  "echos_wf echos \<equiv> \<forall>mid m. hm_get echos mid = Some m \<longrightarrow> hm_wf m"

lemma mset_echo_held: "mset (echo_held a) = hm_values (message_client_txs a)"
  by (simp add: echo_held_def hm_values_def)

lemma echo_wf_start [simp]: "echo_wf EchoBroadcastActor_start"
  by (simp add: echo_wf_def EchoBroadcastActor_start_def)

lemma register_member_get:
  "hm_get (register_member mid k echos) mid' =
     (if mid' = mid then Some (hm_or_insert k False (case hm_get echos mid of None \<Rightarrow> [] | Some m \<Rightarrow> m))
      else hm_get echos mid')"
  by (simp add: register_member_def hm_simps)

lemma register_member_wf: "echos_wf echos \<Longrightarrow> echos_wf (register_member mid k echos)"
  by (auto simp: register_member_get intro: hm_wfs split: option.splits)

text \<open>The loop only sends; it does not touch a caller's channel and does not panic.\<close>

lemma send_to_members_consumed: "send_to_members net data mid echos ms = (es, r) \<Longrightarrow> consumed es = {#}"
  by (induction net data mid echos ms arbitrary: es r rule: send_to_members.induct)
    (auto split: option.splits sum.splits prod.splits)

lemma send_to_members_no_panic: "send_to_members net data mid echos ms \<noteq> (es, Panicked)"
  by (induction net data mid echos ms arbitrary: es rule: send_to_members.induct)
    (auto split: option.splits sum.splits prod.splits)

lemma send_to_members_wf:
  "echos_wf echos \<Longrightarrow> send_to_members net data mid echos ms = (es, Done (b, echos')) \<Longrightarrow> echos_wf echos'"
  by (induction net data mid echos ms arbitrary: es rule: send_to_members.induct)
    (auto simp: register_member_wf split: option.splits sum.splits prod.splits)

text \<open>The four ways a \<open>Send\<close> can end.\<close>

lemma echo_send_cases:
  assumes "echo_step a (EchoSend data ms ch, net) = (es, r)"
  obtains (no_id) "get_message_id data = None" "es = []" "r = Panicked"
  | (blocked) mid where "get_message_id data = Some mid"
      "send_to_members net data mid (message_echos a) ms = (es, Blocked)" "r = Blocked"
  | (failed) mid es1 echos where "get_message_id data = Some mid"
      "send_to_members net data mid (message_echos a) ms = (es1, Done (False, echos))"
      "es = es1 @ [Reply ch (Inl ''Error sending using reliable sender'')]"
      "r = Done (a\<lparr>message_echos := echos\<rparr>)"
  | (no_entry) mid echos where "get_message_id data = Some mid"
      "send_to_members net data mid (message_echos a) ms = (es, Done (True, echos))"
      "hm_get echos mid = None" "r = Panicked"
  | (sent) mid es1 echos m where "get_message_id data = Some mid"
      "send_to_members net data mid (message_echos a) ms = (es1, Done (True, echos))"
      "hm_get echos mid = Some m"
      "es = es1 @ (case hm_get (message_client_txs a) mid of None \<Rightarrow> [] | Some old \<Rightarrow> [DropTx old])"
      "r = Done (a\<lparr>reliable_senders := hm_insert mid ms (reliable_senders a),
                   message_echos := hm_insert mid (hm_insert (get_sender_id data) True m) echos,
                   message_client_txs := hm_insert mid ch (message_client_txs a)\<rparr>)"
proof (cases "get_message_id data")
  case None
  with assms no_id show ?thesis by (auto simp: send_message_def)
next
  case (Some mid)
  obtain es1 r1 where loop: "send_to_members net data mid (message_echos a) ms = (es1, r1)" by force
  show ?thesis
  proof (cases r1)
    case (Done p)
    obtain b echos where "p = (b, echos)" by (cases p)
    with Some loop Done assms failed no_entry sent show ?thesis
      by (cases b; cases "hm_get echos mid") (auto simp: send_message_def)
  next
    case Panicked
    with loop send_to_members_no_panic show ?thesis by metis
  next
    case Blocked
    with Some loop assms blocked show ?thesis by (auto simp: send_message_def)
  qed
qed

lemma add_echo_get:
  "hm_get (message_echos (add_echo a mid k)) mid' =
     (if mid' = mid
      then Some (hm_insert k True (case hm_get (message_echos a) mid of None \<Rightarrow> [] | Some m \<Rightarrow> m))
      else hm_get (message_echos a) mid')"
  by (auto simp: add_echo_def hm_simps split: option.splits)

lemma add_echo_frame [simp]:
  "message_client_txs (add_echo a mid k) = message_client_txs a"
  "reliable_senders (add_echo a mid k) = reliable_senders a"
  by (simp_all add: add_echo_def split: option.splits)

text \<open>The three ways an \<open>Echo\<close> can end; the \<open>unwrap\<close> in \<open>echo_received_for_all\<close> always succeeds.\<close>

lemma echo_echo_cases:
  assumes "echo_step a (Echo data, net) = (es, r)"
  obtains (no_id) "get_message_id data = None" "es = []" "r = Panicked"
  | (complete) mid m ch where "get_message_id data = Some mid"
      "hm_get (message_echos (add_echo a mid (get_sender_id data))) mid = Some m"
      "list_all (\<lambda>(k, status). status) m"
      "hm_get (message_client_txs a) mid = Some ch" "es = [Reply ch (Inr ())]"
      "r = Done ((add_echo a mid (get_sender_id data))
                   \<lparr>message_client_txs := hm_remove mid (message_client_txs a)\<rparr>)"
  | (recorded) mid m where "get_message_id data = Some mid"
      "hm_get (message_echos (add_echo a mid (get_sender_id data))) mid = Some m"
      "\<not> list_all (\<lambda>(k, status). status) m \<or> hm_get (message_client_txs a) mid = None"
      "es = []" "r = Done (add_echo a mid (get_sender_id data))"
proof (cases "get_message_id data")
  case None
  with assms no_id show ?thesis by (auto simp: handle_received_echo_def)
next
  case (Some mid)
  obtain m where m: "hm_get (message_echos (add_echo a mid (get_sender_id data))) mid = Some m"
    by (simp add: add_echo_get)
  with Some assms complete recorded show ?thesis
    by (cases "list_all (\<lambda>(k, status). status) m"; cases "hm_get (message_client_txs a) mid")
      (auto simp: handle_received_echo_def echo_received_for_all_def)
qed

lemma add_echo_wf: "echo_wf a \<Longrightarrow> echo_wf (add_echo a mid k)"
  by (auto simp: echo_wf_def add_echo_get intro: hm_wfs split: option.splits)

lemma echo_step_wf:
  assumes "echo_wf a" and "echo_step a c = (es, Done a')"
  shows "echo_wf a'"
proof (cases "(a, c)" rule: echo_step.cases)
  case (1 _ data ms ch net)
  with assms(2) have "echo_step a (EchoSend data ms ch, net) = (es, Done a')" by simp
  then show ?thesis
  proof (cases rule: echo_send_cases)
    case (failed mid es1 echos)
    with assms(1) show ?thesis by (auto simp: echo_wf_def dest: send_to_members_wf [rotated])
  next
    case (sent mid es1 echos m)
    with assms(1) have "echos_wf echos" by (auto simp: echo_wf_def dest: send_to_members_wf [rotated])
    with assms(1) sent show ?thesis by (auto simp: echo_wf_def hm_simps intro: hm_wfs)
  qed simp_all
next
  case (2 _ data net)
  with assms(2) have "echo_step a (Echo data, net) = (es, Done a')" by simp
  then show ?thesis
  proof (cases rule: echo_echo_cases)
    case (complete mid m ch)
    with add_echo_wf [OF assms(1), of mid "get_sender_id data"] show ?thesis
      by (auto simp: echo_wf_def intro: hm_wfs)
  next
    case (recorded mid m)
    with assms(1) show ?thesis by (simp add: add_echo_wf)
  qed simp
qed

lemma echo_step_conserve:
  assumes "echo_wf a" and "echo_step a c = (es, Done a')"
  shows "consumed es + mset (echo_held a') = mset (echo_held a) + mset (echo_tx c)"
proof (cases "(a, c)" rule: echo_step.cases)
  case (1 _ data ms ch net)
  with assms(2) have "echo_step a (EchoSend data ms ch, net) = (es, Done a')" by simp
  then show ?thesis
  proof (cases rule: echo_send_cases)
    case (failed mid es1 echos)
    with 1 show ?thesis by (simp add: mset_echo_held send_to_members_consumed)
  next
    case (sent mid es1 echos m)
    with 1 hm.vals_ins [of mid ch "message_client_txs a"] show ?thesis
      by (auto simp: mset_echo_held send_to_members_consumed split: option.splits)
  qed simp_all
next
  case (2 _ data net)
  with assms(2) have "echo_step a (Echo data, net) = (es, Done a')" by simp
  then show ?thesis
  proof (cases rule: echo_echo_cases)
    case (complete mid m ch)
    with 2 assms(1) hm.vals_rem_present [of "message_client_txs a" mid ch] show ?thesis
      by (simp add: mset_echo_held echo_wf_def)
  next
    case (recorded mid m)
    with 2 show ?thesis by (simp add: mset_echo_held)
  qed simp
qed

lemma echo_step_stops:
  assumes "echo_step a c = (es, r)" and "r = Panicked \<or> r = Blocked"
  shows "consumed es = {#}"
proof (cases "(a, c)" rule: echo_step.cases)
  case (1 _ data ms ch net)
  with assms(1) have "echo_step a (EchoSend data ms ch, net) = (es, r)" by simp
  then show ?thesis
    by (cases rule: echo_send_cases) (use assms(2) in \<open>auto simp: send_to_members_consumed\<close>)
next
  case (2 _ data net)
  with assms(1) have "echo_step a (Echo data, net) = (es, r)" by simp
  then show ?thesis
    by (cases rule: echo_echo_cases) (use assms(2) in auto)
qed

interpretation echo: oneshot_actor echo_step echo_held echo_tx echo_wf
  by unfold_locales
    (auto dest: echo_step_wf echo_step_conserve echo_step_stops)

section \<open>Histories\<close>

text \<open>Who has been heard on a message: the senders of its echos, and the senders named in the
  \<open>Send\<close> commands for it.\<close>

fun heard_in :: "MessageId \<Rightarrow> string \<Rightarrow> echo_event \<Rightarrow> bool" where
  "heard_in mid k (Echo data, net) \<longleftrightarrow> get_message_id data = Some mid \<and> get_sender_id data = k"
| "heard_in mid k (EchoSend data ms ch, net) \<longleftrightarrow>
     get_message_id data = Some mid \<and> get_sender_id data = k"

definition heard :: "echo_event list \<Rightarrow> MessageId \<Rightarrow> string \<Rightarrow> bool" where
  "heard cs mid k \<longleftrightarrow> (\<exists>c \<in> set cs. heard_in mid k c)"

lemma heard_append [simp]: "heard (cs @ cs') mid k \<longleftrightarrow> heard cs mid k \<or> heard cs' mid k"
  by (auto simp: heard_def)

text \<open>The recorded status of a sender on a message: none, registered or echoed.\<close>

definition echo_view :: "EchosMap \<Rightarrow> MessageId \<Rightarrow> string \<Rightarrow> bool option" where
  "echo_view echos mid k = (case hm_get echos mid of None \<Rightarrow> None | Some m \<Rightarrow> hm_get m k)"

lemma echo_view_register:
  "echo_view (register_member mid k echos) mid' k' =
     (if mid' = mid \<and> k' = k \<and> echo_view echos mid k = None then Some False
      else echo_view echos mid' k')"
  by (auto simp: echo_view_def register_member_get hm_get_or_insert split: option.splits)

lemma echo_view_registers:
  "echo_view (fold (register_member mid) ks echos) mid' k =
     (if mid' = mid \<and> k \<in> set ks \<and> echo_view echos mid k = None then Some False
      else echo_view echos mid' k)"
  by (induction ks arbitrary: echos) (auto simp: echo_view_register)

lemma registers_None:
  "hm_get (fold (register_member mid) ks echos) mid = None \<longleftrightarrow> ks = [] \<and> hm_get echos mid = None"
  by (induction ks arbitrary: echos) (auto simp: register_member_get)

lemma echo_view_add_echo:
  "echo_view (message_echos (add_echo a mid k)) mid' k' =
     (if mid' = mid \<and> k' = k then Some True else echo_view (message_echos a) mid' k')"
  by (auto simp: echo_view_def add_echo_get hm_simps split: option.splits)

text \<open>The loop registers the members it got through, all of them if no send failed, and calls
  \<open>send\<close> once for each of them in order.\<close>

lemma send_to_members_Done:
  assumes "send_to_members net data mid echos ms = (es, Done (b, echos'))"
  shows "\<exists>reached rest. ms = reached @ rest \<and> echos' = fold (register_member mid) (hm_keys reached) echos
     \<and> (\<forall>(k, h) \<in> set reached. net h = Some (Inr ()))
     \<and> (if b then rest = [] \<and> es = map (\<lambda>(k, h). Out (h, data)) ms
        else \<exists>k h rest' e. rest = (k, h) # rest' \<and> net h = Some (Inl e)
               \<and> es = map (\<lambda>(k, h). Out (h, data)) (reached @ [(k, h)]))"
  using assms
proof (induction net data mid echos ms arbitrary: es rule: send_to_members.induct)
  case (2 net data mid echos member h ms)
  show ?case
  proof (cases "\<exists>u. net h = Some (Inr u)")
    case True
    then obtain es' where net: "net h = Some (Inr ())" and es: "es = Out (h, data) # es'"
      and rest: "send_to_members net data mid (register_member mid member echos) ms
        = (es', Done (b, echos'))"
      using "2.prems" by (auto split: prod.splits)
    from "2.IH" [OF net _ rest] obtain reached rest where "ms = reached @ rest"
      and "echos' = fold (register_member mid) (hm_keys reached) (register_member mid member echos)"
      and "\<forall>(k, h) \<in> set reached. net h = Some (Inr ())"
      and "if b then rest = [] \<and> es' = map (\<lambda>(k, h). Out (h, data)) ms
        else \<exists>k h rest' e. rest = (k, h) # rest' \<and> net h = Some (Inl e)
               \<and> es' = map (\<lambda>(k, h). Out (h, data)) (reached @ [(k, h)])"
      by auto
    with net es show ?thesis
      by (intro exI [of _ "(member, h) # reached"] exI [of _ rest]) (auto split: if_splits)
  next
    case False
    with "2.prems" show ?thesis
      by (intro exI [of _ "[]"] exI [of _ "(member, h) # ms"]) (auto split: option.splits sum.splits)
  qed
qed simp

text \<open>A \<open>Send\<close> and an \<open>Echo\<close> that return, in terms of the view.\<close>

lemma echo_view_mark:
  "hm_get echos mid = Some m \<Longrightarrow>
   echo_view (hm_insert mid (hm_insert s True m) echos) mid' k =
     (if mid' = mid \<and> k = s then Some True else echo_view echos mid' k)"
  by (auto simp: echo_view_def hm_simps)

lemma echo_send_Done:
  assumes "echo_step a (EchoSend data ms ch, net) = (es, Done a')"
  obtains (failed) mid reached k h rest e where "get_message_id data = Some mid"
      "ms = reached @ (k, h) # rest" "\<forall>(k, h) \<in> set reached. net h = Some (Inr ())"
      "net h = Some (Inl e)"
      "es = map (\<lambda>(k, h). Out (h, data)) (reached @ [(k, h)])
            @ [Reply ch (Inl ''Error sending using reliable sender'')]"
      "a' = a\<lparr>message_echos := fold (register_member mid) (hm_keys reached) (message_echos a)\<rparr>"
  | (sent) mid m where "get_message_id data = Some mid"
      "\<forall>(k, h) \<in> set ms. net h = Some (Inr ())"
      "hm_get (fold (register_member mid) (hm_keys ms) (message_echos a)) mid = Some m"
      "es = map (\<lambda>(k, h). Out (h, data)) ms
            @ (case hm_get (message_client_txs a) mid of None \<Rightarrow> [] | Some old \<Rightarrow> [DropTx old])"
      "a' = a\<lparr>reliable_senders := hm_insert mid ms (reliable_senders a),
              message_echos := hm_insert mid (hm_insert (get_sender_id data) True m)
                (fold (register_member mid) (hm_keys ms) (message_echos a)),
              message_client_txs := hm_insert mid ch (message_client_txs a)\<rparr>"
  using assms
proof (cases rule: echo_send_cases)
  case f: (failed mid es1 echos)
  from send_to_members_Done [OF f(2)] obtain reached rest k h rest' e
    where "ms = reached @ rest" "echos = fold (register_member mid) (hm_keys reached) (message_echos a)"
      "\<forall>(k, h) \<in> set reached. net h = Some (Inr ())" "rest = (k, h) # rest'" "net h = Some (Inl e)"
      "es1 = map (\<lambda>(k, h). Out (h, data)) (reached @ [(k, h)])"
    by auto
  with f failed show ?thesis by simp
next
  case s: (sent mid es1 echos m)
  from send_to_members_Done [OF s(2)]
  have "echos = fold (register_member mid) (hm_keys ms) (message_echos a)"
    "\<forall>(k, h) \<in> set ms. net h = Some (Inr ())" "es1 = map (\<lambda>(k, h). Out (h, data)) ms"
    by auto
  with s sent show ?thesis by simp
qed simp_all

lemma echo_step_view_True:
  assumes "echo_step a c = (es, Done a')" and "echo_view (message_echos a') mid k = Some True"
  shows "echo_view (message_echos a) mid k = Some True \<or> heard_in mid k c"
proof (cases "(a, c)" rule: echo_step.cases)
  case (1 _ data ms ch net)
  with assms(1) have "echo_step a (EchoSend data ms ch, net) = (es, Done a')" by simp
  then show ?thesis
    by (cases rule: echo_send_Done)
      (use assms(2) 1 in \<open>auto simp: echo_view_mark echo_view_registers split: if_splits\<close>)
next
  case (2 _ data net)
  with assms(1) have "echo_step a (Echo data, net) = (es, Done a')" by simp
  then show ?thesis
    by (cases rule: echo_echo_cases)
      (use assms(2) 2 in \<open>auto simp: echo_view_add_echo split: if_splits\<close>)
qed

lemma echo_step_view_mono:
  assumes "echo_step a c = (es, Done a')" and "echo_view (message_echos a) mid k \<noteq> None"
  shows "echo_view (message_echos a') mid k \<noteq> None"
proof (cases "(a, c)" rule: echo_step.cases)
  case (1 _ data ms ch net)
  with assms(1) have "echo_step a (EchoSend data ms ch, net) = (es, Done a')" by simp
  then show ?thesis
    by (cases rule: echo_send_Done)
      (use assms(2) in \<open>auto simp: echo_view_mark echo_view_registers\<close>)
next
  case (2 _ data net)
  with assms(1) have "echo_step a (Echo data, net) = (es, Done a')" by simp
  then show ?thesis
    by (cases rule: echo_echo_cases) (use assms(2) in \<open>auto simp: echo_view_add_echo\<close>)
qed

lemma echo_step_tx:
  assumes "echo_step a c = (es, Done a')" and "hm_get (message_client_txs a') mid = Some ch"
  shows "hm_get (message_client_txs a) mid = Some ch \<or>
    (\<exists>data ms net. c = (EchoSend data ms ch, net) \<and> get_message_id data = Some mid
       \<and> (\<forall>k \<in> set (hm_keys ms). echo_view (message_echos a') mid k \<noteq> None))"
proof (cases "(a, c)" rule: echo_step.cases)
  case (1 _ data ms ch' net)
  with assms(1) have "echo_step a (EchoSend data ms ch', net) = (es, Done a')" by simp
  then show ?thesis
    by (cases rule: echo_send_Done)
      (use assms(2) 1 in \<open>auto simp: echo_view_mark echo_view_registers hm_simps split: if_splits\<close>)
next
  case (2 _ data net)
  with assms(1) have "echo_step a (Echo data, net) = (es, Done a')" by simp
  then show ?thesis
    by (cases rule: echo_echo_cases) (use assms(2) in \<open>auto simp: hm_simps split: if_splits\<close>)
qed

lemma echo_hist_heard:
  assumes "actor_run echo_step echo_held echo_tx (Running EchoBroadcastActor_start) cs = (es, Running a)"
    and "echo_view (message_echos a) mid k = Some True"
  shows "heard cs mid k"
  using assms
proof (induction rule: actor_run_induct)
  case start
  then show ?case by (simp add: EchoBroadcastActor_start_def echo_view_def)
next
  case (step cs es a c es' a')
  then show ?case using echo_step_view_True [OF step.hyps(2)] by (auto simp: heard_def)
qed

lemma echo_hist_tx:
  assumes "actor_run echo_step echo_held echo_tx (Running EchoBroadcastActor_start) cs = (es, Running a)"
    and "hm_get (message_client_txs a) mid = Some ch"
  shows "\<exists>data ms net. (EchoSend data ms ch, net) \<in> set cs \<and> get_message_id data = Some mid
     \<and> (\<forall>k \<in> set (hm_keys ms). echo_view (message_echos a) mid k \<noteq> None)"
  using assms
proof (induction rule: actor_run_induct)
  case start
  then show ?case by (simp add: EchoBroadcastActor_start_def)
next
  case (step cs es a c es' a')
  from echo_step_tx [OF step.hyps(2) step.prems] show ?case
  proof
    assume "hm_get (message_client_txs a) mid = Some ch"
    with step.IH obtain data ms net where "(EchoSend data ms ch, net) \<in> set cs"
      and "get_message_id data = Some mid"
      and "\<forall>k \<in> set (hm_keys ms). echo_view (message_echos a) mid k \<noteq> None"
      by blast
    moreover from this(3) have "\<forall>k \<in> set (hm_keys ms). echo_view (message_echos a') mid k \<noteq> None"
      using echo_step_view_mono [OF step.hyps(2)] by blast
    ultimately show ?case by auto
  qed auto
qed

text \<open>The invariant that ties the three maps of the actor together: keys are unique; a waiting
  caller belongs to a broadcast that was sent; and a broadcast that was sent has an entry for
  its echos in which every member it went to occurs.\<close>

definition echo_typed :: "EchoBroadcastActor \<Rightarrow> bool" where
  "echo_typed a \<longleftrightarrow> echo_wf a \<and> hm_wf (reliable_senders a) \<and> hm_wf (message_echos a)
     \<and> set (hm_keys (message_client_txs a)) \<subseteq> set (hm_keys (reliable_senders a))
     \<and> (\<forall>mid peers. hm_get (reliable_senders a) mid = Some peers \<longrightarrow>
          hm_get (message_echos a) mid \<noteq> None
          \<and> (\<forall>k \<in> set (hm_keys peers). echo_view (message_echos a) mid k \<noteq> None))"

lemma registers_wf: "hm_wf echos \<Longrightarrow> hm_wf (fold (register_member mid) ks echos)"
  by (induction ks arbitrary: echos) (simp_all add: register_member_def hm_wfs)

lemma registers_get:
  "hm_get echos mid' \<noteq> None \<Longrightarrow> hm_get (fold (register_member mid) ks echos) mid' \<noteq> None"
  by (induction ks arbitrary: echos) (auto simp: register_member_get)

lemma echo_step_entry_mono:
  assumes "echo_step a c = (es, Done a')" and "hm_get (message_echos a) mid \<noteq> None"
  shows "hm_get (message_echos a') mid \<noteq> None"
proof (cases "(a, c)" rule: echo_step.cases)
  case (1 _ data ms ch net)
  with assms(1) have "echo_step a (EchoSend data ms ch, net) = (es, Done a')" by simp
  then show ?thesis
    by (cases rule: echo_send_Done) (use registers_get [OF assms(2)] in \<open>auto simp: hm_simps\<close>)
next
  case (2 _ data net)
  with assms(1) have "echo_step a (Echo data, net) = (es, Done a')" by simp
  then show ?thesis by (cases rule: echo_echo_cases) (use assms(2) in \<open>auto simp: add_echo_get\<close>)
qed

lemma echo_step_keys:
  assumes "echo_step a c = (es, Done a')" and "hm_wf (reliable_senders a)" and "hm_wf (message_echos a)"
    and "set (hm_keys (message_client_txs a)) \<subseteq> set (hm_keys (reliable_senders a))"
  shows "hm_wf (reliable_senders a') \<and> hm_wf (message_echos a')
     \<and> set (hm_keys (message_client_txs a')) \<subseteq> set (hm_keys (reliable_senders a'))"
proof (cases "(a, c)" rule: echo_step.cases)
  case (1 _ data ms ch net)
  with assms(1) have "echo_step a (EchoSend data ms ch, net) = (es, Done a')" by simp
  then show ?thesis
    by (cases rule: echo_send_Done) (use assms(2-) in \<open>auto simp: hm_simps subset_iff registers_wf intro!: hm_wfs\<close>)
next
  case (2 _ data net)
  with assms(1) have "echo_step a (Echo data, net) = (es, Done a')" by simp
  then show ?thesis
    by (cases rule: echo_echo_cases)
      (use assms(2-) in \<open>auto simp: hm_simps subset_iff add_echo_def intro!: hm_wfs split: option.splits\<close>)
qed

lemma echo_step_sent:
  assumes "echo_step a c = (es, Done a')" and "hm_get (reliable_senders a') mid = Some peers"
  shows "hm_get (reliable_senders a) mid = Some peers
     \<or> hm_get (message_echos a') mid \<noteq> None \<and> (\<forall>k \<in> set (hm_keys peers). echo_view (message_echos a') mid k \<noteq> None)"
proof (cases "(a, c)" rule: echo_step.cases)
  case (1 _ data ms ch net)
  with assms(1) have "echo_step a (EchoSend data ms ch, net) = (es, Done a')" by simp
  then show ?thesis
    by (cases rule: echo_send_Done)
      (use assms(2) in \<open>auto simp: echo_view_mark echo_view_registers hm_simps split: if_splits\<close>)
next
  case (2 _ data net)
  with assms(1) have "echo_step a (Echo data, net) = (es, Done a')" by simp
  then show ?thesis by (cases rule: echo_echo_cases) (use assms(2) in simp_all)
qed

lemma echo_step_typed:
  assumes "echo_typed a" and "echo_step a c = (es, Done a')"
  shows "echo_typed a'"
  using assms(1) echo_step_wf [OF _ assms(2)] echo_step_keys [OF assms(2)] echo_step_sent [OF assms(2)]
    echo_step_entry_mono [OF assms(2)] echo_step_view_mono [OF assms(2)]
  unfolding echo_typed_def by blast

text \<open>An \<open>Ok\<close> is only ever sent by an \<open>Echo\<close> that finds every status true.\<close>

lemma echo_step_Ok:
  assumes "echo_step a c = (es, r)" and "Reply ch (Inr ()) \<in> set es" and "echo_wf a"
  shows "\<exists>data net mid a'. c = (Echo data, net) \<and> r = Done a' \<and> get_message_id data = Some mid
     \<and> hm_get (message_client_txs a) mid = Some ch
     \<and> (\<forall>k v. echo_view (message_echos a') mid k = Some v \<longrightarrow> v)"
proof (cases "(a, c)" rule: echo_step.cases)
  case (1 _ data ms ch' net)
  with assms(1) have "echo_step a (EchoSend data ms ch', net) = (es, r)" by simp
  then have False
    by (cases rule: echo_send_cases)
      (use assms(2) in \<open>auto dest!: send_to_members_consumed Reply_consumed split: option.splits\<close>)
  then show ?thesis ..
next
  case (2 _ data net)
  with assms(1) have "echo_step a (Echo data, net) = (es, r)" by simp
  then show ?thesis
  proof (cases rule: echo_echo_cases)
    case (complete mid m ch')
    have "hm_wf m"
      using add_echo_wf [OF assms(3)] complete(2) by (auto simp: echo_wf_def)
    with complete(2,3) have "\<forall>k v. echo_view (message_echos (add_echo a mid (get_sender_id data))) mid k
        = Some v \<longrightarrow> v"
      by (auto simp: echo_view_def hm_all_iff)
    with complete 2 assms(2) show ?thesis by auto
  qed (use assms(2) in auto)
qed

text \<open>A round one package from \<open>sender\<close> under the id \<open>n\<close>, for the concrete instances below.\<close>

abbreviation package_from :: "string \<Rightarrow> u64 \<Rightarrow> Message" where
  "package_from sender n \<equiv>
     BroadcastMessage (RoundOnePackage \<lparr>r1_sender_id = sender, r1_message = ''x''\<rparr> (Some (MessageId n)))"

text \<open>Evaluation of the handlers on concrete states.\<close>

lemmas echo_eval = send_message_def handle_received_echo_def echo_received_for_all_def
  add_echo_def register_member_def hm_or_insert_def echo_held_def Let_def

section \<open>Completion\<close>

fun echo_of :: "MessageId \<Rightarrow> string \<Rightarrow> echo_event \<Rightarrow> bool" where
  "echo_of mid k (Echo data, net) \<longleftrightarrow> get_message_id data = Some mid \<and> get_sender_id data = k"
| "echo_of mid k (EchoSend data ms ch, net) \<longleftrightarrow> False"

fun send_of :: "MessageId \<Rightarrow> echo_event \<Rightarrow> bool" where
  "send_of mid (Echo data, net) \<longleftrightarrow> False"
| "send_of mid (EchoSend data ms ch, net) \<longleftrightarrow> get_message_id data = Some mid"

text \<open>Commands about other messages leave a message alone.\<close>

lemma echo_step_other:
  assumes "echo_step a c = (es, Done a')" and "\<not> send_of mid c" and "\<forall>k. \<not> echo_of mid k c"
  shows "echo_view (message_echos a') mid = echo_view (message_echos a) mid"
    and "hm_get (message_client_txs a') mid = hm_get (message_client_txs a) mid"
proof (atomize (full), cases "(a, c)" rule: echo_step.cases)
  case (1 _ data ms ch net)
  with assms(1) have "echo_step a (EchoSend data ms ch, net) = (es, Done a')" by simp
  then show "echo_view (message_echos a') mid = echo_view (message_echos a) mid
      \<and> hm_get (message_client_txs a') mid = hm_get (message_client_txs a) mid"
    by (cases rule: echo_send_Done)
      (use assms(2) 1 in \<open>auto simp: fun_eq_iff echo_view_mark echo_view_registers hm_simps\<close>)
next
  case (2 _ data net)
  with assms(1) have "echo_step a (Echo data, net) = (es, Done a')" by simp
  then show "echo_view (message_echos a') mid = echo_view (message_echos a) mid
      \<and> hm_get (message_client_txs a') mid = hm_get (message_client_txs a) mid"
    by (cases rule: echo_echo_cases)
      (use assms(3) 2 in \<open>auto simp: fun_eq_iff echo_view_add_echo hm_simps\<close>)
qed

text \<open>The state of a broadcast that waits: who is still missing, and that somebody is missing
  once an echo has been handled.\<close>

definition awaiting ::
  "MessageId \<Rightarrow> chan \<Rightarrow> string set \<Rightarrow> echo_event list \<Rightarrow> EchoBroadcastActor \<Rightarrow> bool" where
  "awaiting mid ch expected cs a \<longleftrightarrow>
     hm_get (message_client_txs a) mid = Some ch
     \<and> (\<forall>k. echo_view (message_echos a) mid k = Some False \<longrightarrow>
          k \<in> expected \<and> \<not> (\<exists>c \<in> set cs. echo_of mid k c))
     \<and> ((\<exists>k. \<exists>c \<in> set cs. echo_of mid k c) \<longrightarrow> (\<exists>k. echo_view (message_echos a) mid k = Some False))"

lemma awaiting_step:
  assumes "awaiting mid ch expected cs a" and "echo_wf a" and "\<not> send_of mid c"
    and "echo_step a c = (es, Done a')"
  shows "Reply ch (Inr ()) \<in> set es \<or> awaiting mid ch expected (cs @ [c]) a'"
proof (cases "\<exists>k. echo_of mid k c")
  case False
  then have "\<forall>k. \<not> echo_of mid k c" by simp
  with echo_step_other [OF assms(4,3)] assms(1) show ?thesis by (auto simp: awaiting_def)
next
  case True
  then obtain data net where c: "c = (Echo data, net)" and id: "get_message_id data = Some mid"
    by (cases c rule: echo_tx.cases) auto
  from assms(4) have "echo_step a (Echo data, net) = (es, Done a')" by (simp add: c)
  then show ?thesis
  proof (cases rule: echo_echo_cases)
    case (complete mid' m ch')
    with id assms(1) show ?thesis by (auto simp: awaiting_def)
  next
    case (recorded mid' m)
    have tx: "hm_get (message_client_txs a) mid = Some ch" using assms(1) by (simp add: awaiting_def)
    have "hm_wf m"
      using add_echo_wf [OF assms(2)] recorded(2) by (auto simp: echo_wf_def)
    moreover have "\<not> list_all (\<lambda>(k, status). status) m" using recorded id tx by auto
    ultimately obtain k where "hm_get m k = Some False" by (auto simp: hm_all_iff)
    then have "echo_view (message_echos a') mid k = Some False"
      using recorded id by (simp add: echo_view_def)
    moreover have "\<forall>k. echo_view (message_echos a') mid k = Some False \<longrightarrow>
        k \<in> expected \<and> \<not> (\<exists>c' \<in> set (cs @ [c]). echo_of mid k c')"
      using assms(1) recorded id by (auto simp: awaiting_def echo_view_add_echo c)
    ultimately show ?thesis using recorded tx by (auto simp: awaiting_def)
  qed simp
qed

lemma awaiting_run:
  assumes "actor_run echo_step echo_held echo_tx (Running a0) cs = (es, Running a)"
    and "awaiting mid ch expected [] a0" and "echo_wf a0" and "\<forall>c \<in> set cs. \<not> send_of mid c"
  shows "Reply ch (Inr ()) \<in> set es \<or> awaiting mid ch expected cs a"
  using assms
proof (induction rule: actor_run_induct)
  case (step cs es a c es' a')
  have "echo_wf a" using echo.run_invar step.hyps(1) step.prems(2) by blast
  with step awaiting_step [of mid ch expected cs a c es' a'] show ?case by auto
qed simp

lemma send_awaiting:
  assumes "echo_step a (EchoSend data ms ch, net) = (es, Done a')"
    and "hm_get (message_echos a) mid = None" and "get_message_id data = Some mid"
    and "\<forall>(k, h) \<in> set ms. net h = Some (Inr ())"
  shows "awaiting mid ch (set (hm_keys ms) - {get_sender_id data}) [] a'"
  using assms(1)
proof (cases rule: echo_send_Done)
  case (failed mid' reached k h rest e)
  with assms(4) show ?thesis by auto
next
  case (sent mid' m)
  have "echo_view (message_echos a) mid k = None" for k
    using assms(2) by (simp add: echo_view_def)
  with sent assms(3) show ?thesis
    by (auto simp: awaiting_def echo_view_mark echo_view_registers hm_simps split: if_splits)
qed

lemma send_returns:
  assumes "\<forall>(k, h) \<in> set ms. net h = Some (Inr ())" and "get_message_id data = Some mid"
    and "ms \<noteq> []"
  shows "\<exists>es a'. echo_step a (EchoSend data ms ch, net) = (es, Done a')"
proof -
  have loop: "\<exists>es echos'. send_to_members net data mid echos ms = (es, Done (True, echos'))" for echos
    using assms(1)
  proof (induction ms arbitrary: echos)
    case (Cons p ms)
    obtain k h where p: "p = (k, h)" by (cases p)
    with Cons.prems have "net h = Some (Inr ())" by simp
    moreover obtain es echos' where "send_to_members net data mid (register_member mid k echos) ms
        = (es, Done (True, echos'))"
      using Cons.IH [of "register_member mid k echos"] Cons.prems by force
    ultimately show ?case by (simp add: p)
  qed simp
  obtain es echos where eq: "send_to_members net data mid (message_echos a) ms = (es, Done (True, echos))"
    using loop by blast
  from send_to_members_Done [OF this]
  have "echos = fold (register_member mid) (hm_keys ms) (message_echos a)" by auto
  with assms(3) registers_None [of mid "hm_keys ms" "message_echos a"]
  have "hm_get echos mid \<noteq> None" by (simp add: hm_keys_def)
  with eq assms(2) show ?thesis by (auto simp: send_message_def)
qed

text \<open>A caller that is answered \<open>Ok\<close> sent a message on which all its members have been heard.\<close>

lemma ok_reply_heard:
  assumes "run_echo_broadcast (Running EchoBroadcastActor_start) cs = (es, t)" and "Reply ch (Inr ()) \<in> set es"
  shows "\<exists>data ms net mid. (EchoSend data ms ch, net) \<in> set cs \<and> get_message_id data = Some mid
           \<and> (\<forall>k \<in> set (hm_keys ms). heard cs mid k)"
proof -
  from assms have "Reply ch (Inr ())
      \<in> set (fst (actor_run echo_step echo_held echo_tx (Running EchoBroadcastActor_start) cs))"
    by (simp add: run_echo_broadcast_def)
  then obtain before c after es1 a es2 r where cs: "cs = before @ c # after"
    and run: "actor_run echo_step echo_held echo_tx (Running EchoBroadcastActor_start) before
      = (es1, Running a)"
    and step: "echo_step a c = (es2, r)" and reply: "Reply ch (Inr ()) \<in> set es2"
    by (rule actor_run_origin) simp
  have "echo_wf a" using echo.run_invar [OF echo_wf_start run] .
  from echo_step_Ok [OF step reply this] obtain mid a' where r: "r = Done a'"
    and tx: "hm_get (message_client_txs a) mid = Some ch"
    and all: "\<forall>k v. echo_view (message_echos a') mid k = Some v \<longrightarrow> v"
    by blast
  from echo_hist_tx [OF run tx] obtain data ms net where send: "(EchoSend data ms ch, net) \<in> set before"
    and id: "get_message_id data = Some mid"
    and keys: "\<forall>k \<in> set (hm_keys ms). echo_view (message_echos a) mid k \<noteq> None"
    by blast
  have run': "actor_run echo_step echo_held echo_tx (Running EchoBroadcastActor_start) (before @ [c])
      = (es1 @ es2, Running a')"
    using run step r by (simp add: actor_run_append)
  have "heard (before @ [c]) mid k" if "k \<in> set (hm_keys ms)" for k
  proof -
    have "echo_view (message_echos a') mid k \<noteq> None"
      using echo_step_view_mono [OF step [unfolded r]] keys that by simp
    then obtain v where "echo_view (message_echos a') mid k = Some v" by auto
    moreover from this all have v by blast
    ultimately have "echo_view (message_echos a') mid k = Some True" by simp
    with run' show ?thesis by (rule echo_hist_heard)
  qed
  then have "\<forall>k \<in> set (hm_keys ms). heard cs mid k" by (auto simp: cs heard_def)
  with send id show ?thesis by (auto simp: cs)
qed

text \<open>A command that is served: it has an id, a \<open>Send\<close> goes to somebody, and no member keeps it waiting.\<close>

fun served :: "echo_event \<Rightarrow> bool" where
  "served (Echo data, net) \<longleftrightarrow> get_message_id data \<noteq> None"
| "served (EchoSend data ms ch, net) \<longleftrightarrow>
     get_message_id data \<noteq> None \<and> ms \<noteq> [] \<and> (\<forall>(k, h) \<in> set ms. net h \<noteq> None)"

lemma send_to_members_Blocked:
  "send_to_members net data mid echos ms = (es, Blocked) \<Longrightarrow> \<exists>(k, h) \<in> set ms. net h = None"
  by (induction net data mid echos ms arbitrary: es rule: send_to_members.induct)
    (auto split: option.splits sum.splits prod.splits)

lemma served_returns:
  assumes "served c"
  shows "\<exists>es a'. echo_step a c = (es, Done a')"
proof (cases "(a, c)" rule: echo_step.cases)
  case (1 _ data ms ch net)
  obtain es r where step: "echo_step a (EchoSend data ms ch, net) = (es, r)" by force
  then show ?thesis
  proof (cases rule: echo_send_cases)
    case (blocked mid)
    with send_to_members_Blocked [OF blocked(2)] assms 1 show ?thesis by auto
  next
    case (no_entry mid echos)
    with send_to_members_Done [OF no_entry(2)] assms 1 show ?thesis
      by (auto simp: registers_None hm_keys_def)
  qed (use assms step 1 in \<open>auto simp del: echo_step.simps\<close>)
next
  case (2 _ data net)
  obtain es r where step: "echo_step a (Echo data, net) = (es, r)" by force
  then show ?thesis
    by (cases rule: echo_echo_cases) (use assms step 2 in \<open>auto simp del: echo_step.simps\<close>)
qed

lemma served_run:
  assumes "list_all served cs"
  shows "\<exists>es a'. actor_run echo_step echo_held echo_tx (Running a) cs = (es, Running a')"
  using assms
proof (induction cs arbitrary: a)
  case (Cons c cs)
  then obtain es a1 where step: "echo_step a c = (es, Done a1)" using served_returns [of c a] by auto
  from Cons obtain es' a' where "actor_run echo_step echo_held echo_tx (Running a1) cs = (es', Running a')" by force
  with step show ?case by simp
qed simp

section \<open>The fate of a caller\<close>

lemma echo_step_caller:
  assumes "echo_step a c = (es, Done a')" and "hm_get (message_client_txs a) mid = Some ch"
  shows "hm_get (message_client_txs a') mid = Some ch \<or> Reply ch (Inr ()) \<in> set es \<or> DropTx ch \<in> set es \<and> send_of mid c"
proof (cases "(a, c)" rule: echo_step.cases)
  case (1 _ data ms ch' net)
  with assms(1) have "echo_step a (EchoSend data ms ch', net) = (es, Done a')" by simp
  then show ?thesis by (cases rule: echo_send_Done) (use assms(2) 1 in \<open>auto simp: hm_simps\<close>)
next
  case (2 _ data net)
  with assms(1) have "echo_step a (Echo data, net) = (es, Done a')" by simp
  then show ?thesis by (cases rule: echo_echo_cases) (use assms(2) in \<open>auto simp: hm_simps\<close>)
qed

lemma echo_run_caller:
  assumes "actor_run echo_step echo_held echo_tx (Running a) cs = (es, Running a')"
    and "hm_get (message_client_txs a) mid = Some ch"
  shows "hm_get (message_client_txs a') mid = Some ch \<or> Reply ch (Inr ()) \<in> set es
    \<or> DropTx ch \<in> set es \<and> (\<exists>c \<in> set cs. send_of mid c)"
  using assms
proof (induction rule: actor_run_induct)
  case (step cs es a c es' a')
  then show ?case using echo_step_caller [OF step.hyps(2), of mid ch] by auto
qed simp

section \<open>Properties\<close>

text \<open>C3. The promise of the echo broadcast: if a broadcast returns \<open>Ok\<close>, then everyone who was a
  member when it was sent has been heard on this message. This holds for every sequence of
  commands to the actor, also when it crashes or gets stuck later.\<close>

theorem broadcast_ok_means_all_echoed:
  assumes "run_echo_broadcast (Running EchoBroadcastActor_start) cs = (es, t)"
    and "EchoBroadcastHandle_send True (oneshot_await es ch) = Done (Inr ())"
  shows "\<exists>data ms net mid. (EchoSend data ms ch, net) \<in> set cs \<and> get_message_id data = Some mid
           \<and> (\<forall>k \<in> set (hm_keys ms). heard cs mid k)"
proof -
  from assms(2) obtain v where "oneshot_await es ch = Some (Inr v)" and "is_ok v"
    by (auto simp: EchoBroadcastHandle_send_def split: option.splits sum.splits if_splits)
  then have "Reply ch (Inr ()) \<in> set es" by (auto simp: is_ok_iff dest: oneshot_await_Reply)
  with assms(1) show ?thesis by (rule ok_reply_heard)
qed

theorem broadcast_ok_means_all_echoed_witness:
  "\<exists>data ms net mid.
     (EchoSend data ms 9, net :: net) \<in> set [(EchoSend (package_from ''n'' 1) [(''b'', 2)] 9, \<lambda>_. Some (Inr ())),
        (Echo (package_from ''b'' 1), \<lambda>_. None)]
     \<and> get_message_id data = Some mid
     \<and> (\<forall>k \<in> set (hm_keys ms). heard [(EchoSend (package_from ''n'' 1) [(''b'', 2)] 9, \<lambda>_. Some (Inr ())),
        (Echo (package_from ''b'' 1), \<lambda>_. None)] mid k)"
proof -
  let ?cs = "[(EchoSend (package_from ''n'' 1) [(''b'', 2)] 9, \<lambda>_. Some (Inr ())),
      (Echo (package_from ''b'' 1), \<lambda>_. None)] :: echo_event list"
  obtain es t where run: "run_echo_broadcast (Running EchoBroadcastActor_start) ?cs = (es, t)"
    by force
  then have "es = [Out (2, package_from ''n'' 1), Reply 9 (Inr ())]"
    by (auto simp: run_echo_broadcast_def EchoBroadcastActor_start_def echo_eval)
  then have "EchoBroadcastHandle_send True (oneshot_await es 9) = Done (Inr ())"
    by (simp add: EchoBroadcastHandle_send_def)
  with run show ?thesis by (rule broadcast_ok_means_all_echoed)
qed

text \<open>C5. Conversely a broadcast does return \<open>Ok\<close>: a message with a fresh id, sent to a non-empty
  membership whose reliable senders all succeed, is answered \<open>Ok\<close> once every member other than
  the sender has echoed it, at least one echo having arrived. Other broadcasts and echos may be
  interleaved, under two conditions that are both needed: none of them sends under the same id,
  and each is served, that is, it has an id, a broadcast goes to at least one member, and no
  member keeps it waiting for ever. Then the actor is also still running.\<close>

theorem broadcast_completes:
  assumes "echo_wf a" and "hm_get (message_echos a) mid = None"
    and "get_message_id data = Some mid" and "ms \<noteq> []"
    and "\<forall>(k, h) \<in> set ms. net h = Some (Inr ())"
    and "list_all served cs" and "\<forall>c \<in> set cs. \<not> send_of mid c"
    and "\<forall>k \<in> set (hm_keys ms) - {get_sender_id data}. \<exists>c \<in> set cs. echo_of mid k c"
    and "\<exists>k. \<exists>c \<in> set cs. echo_of mid k c"
    and "distinct (echo_held a @ ch # concat (map echo_tx cs))"
  shows "\<exists>es a'. run_echo_broadcast (Running a) ((EchoSend data ms ch, net) # cs) = (es, Running a')
     \<and> EchoBroadcastHandle_send True (oneshot_await es ch) = Done (Inr ())"
proof -
  let ?expected = "set (hm_keys ms) - {get_sender_id data}"
  obtain es1 a1 where step: "echo_step a (EchoSend data ms ch, net) = (es1, Done a1)"
    using send_returns [OF assms(5,3,4)] by blast
  obtain es2 a' where rest: "actor_run echo_step echo_held echo_tx (Running a1) cs = (es2, Running a')"
    using served_run [OF assms(6)] by blast
  with step have run: "actor_run echo_step echo_held echo_tx (Running a) ((EchoSend data ms ch, net) # cs)
      = (es1 @ es2, Running a')" by (simp del: echo_step.simps)
  have "awaiting mid ch ?expected [] a1" using step assms(2,3,5) by (rule send_awaiting)
  from awaiting_run [OF rest this echo_step_wf [OF assms(1) step] assms(7)]
  have "Reply ch (Inr ()) \<in> set (es1 @ es2)" using assms(8,9) by (auto simp: awaiting_def)
  then have "oneshot_await (es1 @ es2) ch = Some (Inr (Inr ()))"
    using echo.run_reply_awaited [OF assms(1) run] assms(10) by simp
  with run show ?thesis by (simp add: EchoBroadcastHandle_send_def run_echo_broadcast_def del: echo_step.simps)
qed

theorem broadcast_completes_witness:
  "\<exists>es a'. run_echo_broadcast (Running EchoBroadcastActor_start)
     [(EchoSend (package_from ''n'' 1) [(''b'', 2)] 9, \<lambda>_. Some (Inr ())),
      (EchoSend (package_from ''n'' 2) [(''c'', 3)] 10, \<lambda>_. Some (Inl ''gone'')),
      (Echo (package_from ''b'' 1), \<lambda>_. None)] = (es, Running a')
     \<and> EchoBroadcastHandle_send True (oneshot_await es 9) = Done (Inr ())"
  by (rule broadcast_completes [of _ "MessageId 1"])
    (simp_all add: EchoBroadcastActor_start_def echo_wf_def echo_held_def)

text \<open>C18. What becomes of each caller of \<open>send\<close>, as long as the actor is running. It is told of an error
  only if the reliable sender of one of its members failed; it is told \<open>Ok\<close> only if all its members
  have been heard on its message; its channel is closed only if a later command sent under the same id;
  and otherwise it waits, and the actor still holds its channel under the id of its message.\<close>

theorem broadcast_caller_fate:
  assumes "run_echo_broadcast (Running EchoBroadcastActor_start) cs = (es, Running a)"
    and "cs = before @ (EchoSend data ms ch, net) # after" and "distinct (concat (map echo_tx cs))"
  shows "\<exists>mid. get_message_id data = Some mid \<and>
     (case EchoBroadcastHandle_send True (oneshot_await es ch) of
        Done (Inr _) \<Rightarrow> \<forall>k \<in> set (hm_keys ms). heard cs mid k
      | Done (Inl err) \<Rightarrow>
          err = ''Broadcast error'' \<and> (\<exists>(k, h) \<in> set ms. \<exists>e. net h = Some (Inl e))
          \<or> err = ''channel closed'' \<and> (\<exists>c \<in> set after. send_of mid c)
      | Blocked \<Rightarrow> hm_get (message_client_txs a) mid = Some ch
      | Panicked \<Rightarrow> False)"
proof -
  note run = assms(1) [unfolded run_echo_broadcast_def]
  have chans: "distinct (echo_held EchoBroadcastActor_start @ concat (map echo_tx cs))"
    using assms(3) by (simp add: echo_held_def EchoBroadcastActor_start_def)
  note replied = echo.run_reply_awaited [OF echo_wf_start run chans]
    and dropped = echo.run_drop_awaited [OF echo_wf_start run chans]
    and held = echo.run_held_waits [OF echo_wf_start run chans]
  obtain es0 a0 es1 a1 es2 where step: "echo_step a0 (EchoSend data ms ch, net) = (es1, Done a1)"
    and rest: "actor_run echo_step echo_held echo_tx (Running a1) after = (es2, Running a)"
    and es: "es = es0 @ es1 @ es2"
    using run unfolding assms(2)
    by (elim actor_run_prefix_Running)
      (auto simp: Let_def actor_run_Crashed simp del: echo_step.simps split: prod.splits outcome.splits)
  from step show ?thesis
  proof (cases rule: echo_send_Done)
    case (failed mid reached k h rest e)
    with replied [of ch "Inl ''Error sending using reliable sender''"] es
    show ?thesis by (auto simp: EchoBroadcastHandle_send_def)
  next
    case (sent mid m)
    then have "hm_get (message_client_txs a1) mid = Some ch" by (simp add: hm_simps)
    from echo_run_caller [OF rest this] show ?thesis
    proof (elim disjE conjE)
      assume tx: "hm_get (message_client_txs a) mid = Some ch"
      then have "ch \<in> set (echo_held a)" by (force simp: echo_held_def hm_get_def dest: map_of_SomeD)
      with held tx sent(1) show ?thesis by (simp add: EchoBroadcastHandle_send_def)
    next
      assume "Reply ch (Inr ()) \<in> set es2"
      then have ok: "Reply ch (Inr ()) \<in> set es" by (simp add: es)
      from ok_reply_heard [OF assms(1) this] obtain data' ms' net' mid' where
        "(EchoSend data' ms' ch, net') \<in> set cs" "get_message_id data' = Some mid'"
        "\<forall>k \<in> set (hm_keys ms'). heard cs mid' k" by blast
      moreover from this(1) have "(EchoSend data' ms' ch, net') = (EchoSend data ms ch, net)"
        by (rule distinct_concat_unique [OF assms(3), where k = ch]) (simp_all add: assms(2))
      ultimately show ?thesis using replied [OF ok] sent(1) by (simp add: EchoBroadcastHandle_send_def)
    next
      assume "DropTx ch \<in> set es2" and "\<exists>c \<in> set after. send_of mid c"
      with dropped [of ch] es sent(1) show ?thesis by (simp add: EchoBroadcastHandle_send_def)
    qed
  qed
qed

theorem broadcast_caller_fate_witness:
  "\<exists>es a. run_echo_broadcast (Running EchoBroadcastActor_start)
     [(EchoSend (package_from ''n'' 1) [(''b'', 2)] 9, \<lambda>_. Some (Inr ()))] = (es, Running a)
     \<and> EchoBroadcastHandle_send True (oneshot_await es 9) = Blocked
     \<and> hm_get (message_client_txs a) (MessageId 1) = Some 9"
proof -
  let ?cs = "[(EchoSend (package_from ''n'' 1) [(''b'', 2)] 9, \<lambda>_. Some (Inr ()))] :: echo_event list"
  obtain es a where run: "run_echo_broadcast (Running EchoBroadcastActor_start) ?cs = (es, Running a)"
    and es: "es = [Out (2, package_from ''n'' 1)]"
    by (simp add: run_echo_broadcast_def EchoBroadcastActor_start_def echo_eval)
  then have "EchoBroadcastHandle_send True (oneshot_await es 9) = Blocked"
    by (simp add: EchoBroadcastHandle_send_def)
  with broadcast_caller_fate [OF run, of "[]"] run show ?thesis by auto
qed

text \<open>C17. Every reachable state of the actor is well-formed: the keys of its three maps are unique, each
  waiting caller belongs to a broadcast that was sent, and for each broadcast that was sent there
  is an entry that lists all members it went to. So the \<open>unwrap\<close> of the entry cannot fail for a
  broadcast that a caller waits for.\<close>

theorem echo_state_well_formed:
  assumes "run_echo_broadcast (Running EchoBroadcastActor_start) cs = (es, Running a)"
  shows "echo_typed a"
  using assms unfolding run_echo_broadcast_def
proof (induction rule: actor_run_induct)
  case start
  show ?case by (simp add: echo_typed_def EchoBroadcastActor_start_def echo_wf_def)
next
  case (step cs es a c es' a')
  from step.IH step.hyps(2) show ?case by (rule echo_step_typed)
qed

theorem echo_state_well_formed_witness:
  "\<exists>es a. run_echo_broadcast (Running EchoBroadcastActor_start)
     [(EchoSend (package_from ''a'' 1) [(''b'', 2), (''c'', 3)] 9, \<lambda>_. Some (Inr ())),
      (Echo (package_from ''b'' 1), \<lambda>_. None)] = (es, Running a) \<and> echo_typed a"
proof -
  let ?cs = "[(EchoSend (package_from ''a'' 1) [(''b'', 2), (''c'', 3)] 9, \<lambda>_. Some (Inr ())),
      (Echo (package_from ''b'' 1), \<lambda>_. None)] :: echo_event list"
  have "\<exists>es a. run_echo_broadcast (Running EchoBroadcastActor_start) ?cs = (es, Running a)"
    by (simp add: run_echo_broadcast_def echo_eval EchoBroadcastActor_start_def)
  then obtain es a where run: "run_echo_broadcast (Running EchoBroadcastActor_start) ?cs = (es, Running a)" by blast
  with echo_state_well_formed [OF run] show ?thesis by blast
qed

text \<open>C33. Exactly when the actor panics, which takes every pending broadcast with it: on a message
  without an id, and on a \<open>Send\<close> to an empty membership for an id it has no echo of. Both can be
  caused from outside: a peer chooses whether its broadcast has an id, and a node without
  members broadcasts to nobody.\<close>

theorem echo_actor_panics_iff:
  "snd (echo_step a c) = Panicked \<longleftrightarrow>
     (case c of
        (Echo data, _) \<Rightarrow> get_message_id data = None
      | (EchoSend data ms ch, _) \<Rightarrow>
          (case get_message_id data of
             None \<Rightarrow> True
           | Some mid \<Rightarrow> ms = [] \<and> hm_get (message_echos a) mid = None))"
proof (cases "(a, c)" rule: echo_step.cases)
  case (1 _ data ms ch net)
  obtain es r where step: "echo_step a (EchoSend data ms ch, net) = (es, r)" by force
  then show ?thesis
  proof (cases rule: echo_send_cases)
    case (blocked mid)
    then have "ms \<noteq> []" by auto
    with 1 step blocked show ?thesis by (simp del: echo_step.simps)
  next
    case (failed mid es1 echos)
    then have "ms \<noteq> []" by auto
    with 1 step failed show ?thesis by (simp del: echo_step.simps)
  next
    case (no_entry mid echos)
    from send_to_members_Done [OF no_entry(2)] no_entry(3)
    have "ms = [] \<and> hm_get (message_echos a) mid = None"
      by (auto simp: registers_None hm_keys_def)
    with 1 step no_entry show ?thesis by (simp del: echo_step.simps)
  next
    case (sent mid es1 echos m)
    from send_to_members_Done [OF sent(2)] sent(3)
    have "\<not> (ms = [] \<and> hm_get (message_echos a) mid = None)" by auto
    with 1 step sent show ?thesis by (auto simp del: echo_step.simps)
  qed (use 1 step in \<open>simp del: echo_step.simps\<close>)
next
  case (2 _ data net)
  obtain es r where step: "echo_step a (Echo data, net) = (es, r)" by force
  then show ?thesis
    by (cases rule: echo_echo_cases) (use 2 step in \<open>simp_all del: echo_step.simps\<close>)
qed

text \<open>C22. A failed send ends the broadcast at once: the members before the failing one have been
  sent the message, those after it have not, the caller gets an error, no channel is stored and
  broadcasts under other ids are unaffected.\<close>

theorem broadcast_send_error:
  assumes "get_message_id data = Some mid" and "ms = reached @ (k, h) # rest"
    and "\<forall>(k, h) \<in> set reached. net h = Some (Inr ())" and "net h = Some (Inl e)"
  shows "\<exists>es a'. echo_step a (EchoSend data ms ch, net) = (es, Done a')
     \<and> outs es = map (\<lambda>(k, h). (h, data)) (reached @ [(k, h)])
     \<and> EchoBroadcastHandle_send True (oneshot_await es ch) = Done (Inl ''Broadcast error'')
     \<and> message_client_txs a' = message_client_txs a
     \<and> (\<forall>mid'. mid' \<noteq> mid \<longrightarrow> echo_view (message_echos a') mid' = echo_view (message_echos a) mid')"
proof -
  have loop: "send_to_members net data mid echos (reached @ (k, h) # rest) =
      (map (\<lambda>(k, h). Out (h, data)) (reached @ [(k, h)]),
       Done (False, fold (register_member mid) (hm_keys reached) echos))" for echos
    using assms(3)
  proof (induction reached arbitrary: echos)
    case Nil
    with assms(4) show ?case by (simp add: hm_keys_def)
  next
    case (Cons p reached)
    obtain k' h' where p: "p = (k', h')" by (cases p)
    with Cons.prems have "net h' = Some (Inr ())" by simp
    with Cons.IH [of "register_member mid k' echos"] Cons.prems show ?case by (simp add: p)
  qed
  have outs: "outs (map (\<lambda>(k, h). Out (h, data)) xs) = map (\<lambda>(k, h). (h, data)) xs"
    and await: "oneshot_await (map (\<lambda>(k, h). Out (h, data)) xs @ [Reply ch v]) ch = Some (Inr v)"
    for v :: ConnectionResult and xs :: "(string \<times> handle) list"
    by (induction xs) auto
  show ?thesis
    using assms(1,2) loop [of "message_echos a"] await [of "reached @ [(k, h)]"] outs [of "reached @ [(k, h)]"]
    by (auto simp: send_message_def EchoBroadcastHandle_send_def fun_eq_iff echo_view_registers)
qed

theorem broadcast_send_error_witness:
  "\<exists>es a'. echo_step EchoBroadcastActor_start
       (EchoSend (package_from ''n'' 1) [(''a'', 1), (''b'', 2), (''c'', 3)] 9,
        \<lambda>h. if h = 2 then Some (Inl ''gone'') else Some (Inr ())) = (es, Done a')
     \<and> outs es = [(1, package_from ''n'' 1), (2, package_from ''n'' 1)]"
  using broadcast_send_error [of "package_from ''n'' 1" "MessageId 1"
      "[(''a'', 1), (''b'', 2), (''c'', 3)]" "[(''a'', 1)]" "''b''" 2 "[(''c'', 3)]"
      "\<lambda>h. if h = 2 then Some (Inl ''gone'') else Some (Inr ())" "''gone''" EchoBroadcastActor_start 9]
  by (simp del: echo_step.simps) blast

text \<open>C24. One member whose reliable sender never answers, reached before any failure, stops the
  actor for good: no later command, for whatever broadcast, is ever answered.\<close>

theorem silent_member_stalls_all_broadcasts:
  assumes "get_message_id data = Some mid" and "ms = reached @ (k, h) # rest"
    and "\<forall>(k, h) \<in> set reached. net h = Some (Inr ())" and "net h = None"
  shows "\<exists>es. run_echo_broadcast (Running a) ((EchoSend data ms ch, net) # cs) = (es, Stuck)
     \<and> (\<forall>ch'. EchoBroadcastHandle_send True (oneshot_await es ch') = Blocked)"
proof -
  have loop: "send_to_members net data mid echos (reached @ (k, h) # rest) =
      (map (\<lambda>(k, h). Out (h, data)) (reached @ [(k, h)]), Blocked)" for echos
    using assms(3)
  proof (induction reached arbitrary: echos)
    case Nil
    with assms(4) show ?case by simp
  next
    case (Cons p reached)
    obtain k' h' where p: "p = (k', h')" by (cases p)
    with Cons.prems have "net h' = Some (Inr ())" by simp
    with Cons.IH [of "register_member mid k' echos"] Cons.prems show ?case by (simp add: p)
  qed
  have "oneshot_await (map (\<lambda>(k, h). Out (h, data)) xs) ch' = (None :: (unit + ConnectionResult) option)"
    for ch' and xs :: "(string \<times> handle) list"
    by (induction xs) auto
  with assms(1,2) loop [of "message_echos a"] show ?thesis
    by (auto simp: run_echo_broadcast_def send_message_def EchoBroadcastHandle_send_def simp del: map_append)
qed

theorem silent_member_stalls_all_broadcasts_witness:
  "\<exists>es. run_echo_broadcast (Running EchoBroadcastActor_start)
      [(EchoSend (package_from ''n'' 1) [(''a'', 1)] 9, \<lambda>_. None),
       (EchoSend (package_from ''n'' 2) [(''b'', 2)] 10, \<lambda>_. Some (Inr ()))] = (es, Stuck)
     \<and> (\<forall>ch'. EchoBroadcastHandle_send True (oneshot_await es ch') = Blocked)"
  by (rule silent_member_stalls_all_broadcasts
      [where reached = "[]" and rest = "[]" and k = "''a''" and h = 1 and mid = "MessageId 1"]) simp_all

text \<open>Only \<open>Echo\<close> commands complete a broadcast: a run that gets none never answers \<open>Ok\<close>, however
  often a message is sent again.\<close>

lemma no_echo_no_completion:
  assumes "\<forall>c \<in> set cs. \<forall>data net. c \<noteq> (Echo data, net)"
    and "run_echo_broadcast (Running EchoBroadcastActor_start) cs = (es, t)"
  shows "EchoBroadcastHandle_send True (oneshot_await es ch) \<noteq> Done (Inr ())"
proof
  assume "EchoBroadcastHandle_send True (oneshot_await es ch) = Done (Inr ())"
  then have "Reply ch (Inr ()) \<in> set es"
    by (auto simp: EchoBroadcastHandle_send_def is_ok_iff dest: oneshot_await_Reply
        split: option.splits sum.splits if_splits)
  with assms(2) have "Reply ch (Inr ())
      \<in> set (fst (actor_run echo_step echo_held echo_tx (Running EchoBroadcastActor_start) cs))"
    by (simp add: run_echo_broadcast_def)
  then obtain before c after es1 a es2 r where cs: "cs = before @ c # after"
    and run: "actor_run echo_step echo_held echo_tx (Running EchoBroadcastActor_start) before
      = (es1, Running a)"
    and step: "echo_step a c = (es2, r)" and reply: "Reply ch (Inr ()) \<in> set es2"
    by (rule actor_run_origin) simp
  from echo_step_Ok [OF step reply echo.run_invar [OF echo_wf_start run]]
  obtain data net where "c = (Echo data, net)" by blast
  with assms(1) cs show False by auto
qed

text \<open>C35. Sending a message again under the same id replaces the waiting caller: the first caller's
  channel is closed without an answer, so its broadcast fails although nothing went wrong, and
  the second caller waits in its place.\<close>

theorem resend_fails_first_caller:
  assumes "echo_wf a" and "hm_get (message_client_txs a) mid = Some first"
    and "get_message_id data = Some mid" and "ms \<noteq> []"
    and "\<forall>(k, h) \<in> set ms. net h = Some (Inr ())"
  shows "\<exists>es a'. echo_step a (EchoSend data ms second, net) = (es, Done a')
     \<and> EchoBroadcastHandle_send True (oneshot_await es first) = Done (Inl ''channel closed'')
     \<and> hm_get (message_client_txs a') mid = Some second"
proof -
  obtain es a' where step: "echo_step a (EchoSend data ms second, net) = (es, Done a')"
    using send_returns [OF assms(5,3,4)] by blast
  have await: "oneshot_await (map (\<lambda>(k, h). Out (h, data)) xs @ [DropTx first]) first
      = (Some (Inl ()) :: (unit + ConnectionResult) option)"
    for xs :: "(string \<times> handle) list"
    by (induction xs) auto
  from step show ?thesis
  proof (cases rule: echo_send_Done)
    case (failed mid' reached k h rest e)
    with assms(5) show ?thesis by auto
  next
    case (sent mid' m)
    with step assms(2,3) await [of ms] show ?thesis
      by (auto simp: EchoBroadcastHandle_send_def hm_simps simp del: echo_step.simps)
  qed
qed

theorem resend_fails_first_caller_witness:
  "\<exists>es a'. echo_step \<lparr>reliable_senders = [], message_echos = [(MessageId 1, [(''b'', False)])],
        message_client_txs = [(MessageId 1, 9)]\<rparr>
      (EchoSend (package_from ''b'' 1) [(''b'', 2)] 10, \<lambda>_. Some (Inr ())) = (es, Done a')
     \<and> EchoBroadcastHandle_send True (oneshot_await es 9) = Done (Inl ''channel closed'')
     \<and> hm_get (message_client_txs a') (MessageId 1) = Some 10"
  by (rule resend_fails_first_caller) (simp_all add: echo_wf_def)

end
