(* ===== verification/Node.thy ===== *)
theory Node
  imports Config Protocols Connection EchoBroadcast
begin

text \<open>
  \<open>src/src/node.rs\<close>: the node that puts the components together, and \<open>src/src/main.rs\<close>. A body is a
  traced computation: the calls it makes of other components, in order, and how it ends. The
  calls the node spawns (the connection's event loop, the reliable sender) appear in the trace.

  What a body meets is an environment: the network (\<open>dial\<close>, \<open>bind_listener\<close>, the frames a peer
  sends and takes in the handshake), what \<open>send\<close> on a reliable sender and on the echo broadcast yields, and
  the crate \<open>tower\<close>. For \<open>tower\<close> the code relies on two facts, \<open>tower_law\<close>: \<open>oneshot\<close> calls a service
  that is ready, and the timeout layer either leaves a call alone or cuts it short with an error.

  The maps behind the shared handles are part of the node's state. A body is not alone: the event
  loops and the accept loop share the membership actor, so before each of its accesses the actor
  may serve any commands of other tasks, \<open>other_commands\<close>; the accesses of a body are counted from 0.
\<close>

section \<open>The node\<close>

record Node =
  node_seeds :: "string list"
  node_bind_address :: string
  node_static_key_pem :: string
  node_delivery_timeout :: u64
  node_state :: State
  node_echo_broadcast_handle :: "EchoBroadcastActor task"

definition Node_new :: Node where
  "Node_new =
     (let bind_address = ''localhost'';
          message_id_generator = MessageIdGenerator_new bind_address;
          echo_broadcast_handle = Running EchoBroadcastActor_start;
          state = \<lparr>membership_handle = MembershipHandle_start, message_id_generator = message_id_generator\<rparr>
      in \<lparr>node_seeds = [''localhost:6680''], node_bind_address = bind_address,
          node_static_key_pem = '''', node_delivery_timeout = 500, node_state = state,
          node_echo_broadcast_handle = echo_broadcast_handle\<rparr>)"

definition Node_seeds :: "string list \<Rightarrow> Node \<Rightarrow> Node" where
  "Node_seeds ss n = n\<lparr>node_seeds := ss\<rparr>"

definition Node_bind_address :: "string \<Rightarrow> Node \<Rightarrow> Node" where
  "Node_bind_address address n = n\<lparr>node_bind_address := address\<rparr>"

definition Node_static_key_pem :: "string \<Rightarrow> Node \<Rightarrow> Node" where
  "Node_static_key_pem k n = n\<lparr>node_static_key_pem := k\<rparr>"

definition Node_delivery_timeout :: "u64 \<Rightarrow> Node \<Rightarrow> Node" where
  "Node_delivery_timeout timeout n = n\<lparr>node_delivery_timeout := timeout\<rparr>"

definition get_node_id :: "Node \<Rightarrow> string" where
  "get_node_id n = node_bind_address n"

section \<open>The environment\<close>

datatype node_call =
    WriteFrame string bytes
  | StartReliableSender handle
  | StartEventLoop string handle
  | AddMember string handle
  | RemoveMember string
  | ReliableSendTo handle Message
  | EchoBroadcastTo Message ReliableSenderMap
  | EchoReceive Message MessageId

type_synonym service_run = "(node_call, ConnectionResult) traced"

record tower =
  tower_oneshot :: "(string + unit) poll \<Rightarrow> service_run \<Rightarrow> service_run"
  tower_timeout :: "u64 \<Rightarrow> service_run \<Rightarrow> service_run"

definition tower_law :: "tower \<Rightarrow> bool" where
  "tower_law tw \<longleftrightarrow>
     (\<forall>run. tower_oneshot tw (Ready (Inr ())) run = run)
     \<and> (\<forall>d run. snd (tower_timeout tw d run) \<noteq> Blocked
          \<and> (tower_timeout tw d run = run
             \<or> prefix (fst (tower_timeout tw d run)) (fst run) \<and> (\<exists>err. snd (tower_timeout tw d run) = Done (Inl err))))"

text \<open>\<open>dial seed\<close> is \<open>TcpStream::connect(seed)\<close> and, for an open stream, its \<open>peer_addr()\<close>;
  \<open>sender_for addr\<close> names the reliable sender started for the connection with \<open>addr\<close>.\<close>

record ('k, 'p, 'h, 't) node_env =
  crates :: "('k, 'p, 'h, 't) noise_crates"
  dial :: "string \<Rightarrow> string + string + string"
  bind_listener :: "string \<Rightarrow> string + unit"
  peer_frames :: "string \<Rightarrow> reader"
  peer_takes :: "string \<Rightarrow> writer"
  sender_for :: "string \<Rightarrow> handle"
  call_env :: env
  reliable_send :: "handle \<Rightarrow> Message \<Rightarrow> ConnectionResult outcome"
  echo_send :: "Message \<Rightarrow> ReliableSenderMap \<Rightarrow> ConnectionResult outcome"
  other_commands :: "nat \<Rightarrow> MembershipCommand list"
  tower_crate :: tower

text \<open>The shared state once the actor has served the commands of other tasks.\<close>

definition meanwhile :: "('k, 'p, 'h, 't) node_env \<Rightarrow> nat \<Rightarrow> State \<Rightarrow> State" where
  "meanwhile e k state =
     state\<lparr>membership_handle := snd (run_membership_actor (membership_handle state) (other_commands e k))\<rparr>"

definition retag :: "('a \<Rightarrow> 'b) \<Rightarrow> ('a, 'r) traced \<Rightarrow> ('b, 'r) traced" where
  "retag f run = (map f (fst run), snd run)"

section \<open>Responding to messages\<close>

text \<open>\<open>TimeoutLayer::new(timeout).layer(ReliableSend::new(Protocol::new(..), h)).oneshot(message)\<close>, the
  chain of services that three functions of the node build; they ignore its result.\<close>

definition reliable_oneshot ::
  "('k, 'p, 'h, 't) node_env \<Rightarrow> string \<Rightarrow> u64 \<Rightarrow> Message \<Rightarrow> handle \<Rightarrow> State \<Rightarrow> (node_call, unit) traced" where
  "reliable_oneshot e node_id timeout message h state =
     (let protocol_service = Protocol_new node_id state;
          run = retag (ReliableSendTo h)
            (ReliableSend_call (Protocol_call (call_env e) protocol_service) (reliable_send e h) message)
      in trace_bind
           (tower_oneshot (tower_crate e) (ReliableSend_poll_ready (Protocol_poll_ready protocol_service))
             (tower_timeout (tower_crate e) timeout run))
           (\<lambda>_. untraced (Done ())))"

definition respond_to_unicast_message ::
  "('k, 'p, 'h, 't) node_env \<Rightarrow> string \<Rightarrow> u64 \<Rightarrow> Message \<Rightarrow> handle \<Rightarrow> State \<Rightarrow> (node_call, unit) traced" where
  "respond_to_unicast_message e node_id timeout message h state =
     reliable_oneshot e node_id timeout message h state"

definition respond_to_broadcast_message ::
  "('k, 'p, 'h, 't) node_env \<Rightarrow> string \<Rightarrow> u64 \<Rightarrow> Broadcast \<Rightarrow> State \<Rightarrow> (node_call, unit) traced" where
  "respond_to_broadcast_message e node_id timeout message state =
     (let get_members = MembershipHandle_get_members (membership_handle state) (env_chan (call_env e)) in
      trace_bind (untraced (bind_outcome get_members unwrap_result)) (\<lambda>peers.
      trace_bind (emit (EchoBroadcastTo (Message_from_Broadcast message) peers)
                   (echo_send e (Message_from_Broadcast message) peers)) (\<lambda>_.
      let state = meanwhile e 0 state;
          get_members = MembershipHandle_get_members (membership_handle state) (env_chan (call_env e));
          protocol_service = Protocol_new node_id state;
          run = retag (case_prod EchoBroadcastTo)
            (EchoBroadcast_call (Protocol_call (call_env e) protocol_service) get_members (echo_send e)
              (Message_from_Broadcast message))
      in trace_bind
           (tower_oneshot (tower_crate e) (EchoBroadcast_poll_ready (Protocol_poll_ready protocol_service))
             (tower_timeout (tower_crate e) timeout run))
           (\<lambda>_. untraced (Done ())))))"

text \<open>The task \<open>start_connection_event_loop\<close> spawns, on the messages of the connection, each with
  the environment and the shared state of its moment. When the channel is closed it removes the
  member; while it is open it waits for more.\<close>

fun connection_event_loop ::
  "string \<Rightarrow> u64 \<Rightarrow> string \<Rightarrow> handle \<Rightarrow> (('k, 'p, 'h, 't) node_env \<times> State \<times> Message) list
    \<Rightarrow> (MembershipActor task \<times> chan) option \<Rightarrow> (node_call, MembershipActor task) traced" where
  "connection_event_loop node_id timeout addr h [] None = ([], Blocked)"
| "connection_event_loop node_id timeout addr h [] (Some (membership, ch)) =
     (let (membership', r) = MembershipHandle_remove_member membership ch addr
      in emit (RemoveMember addr) (bind_outcome r (\<lambda>_. Done membership')))"
| "connection_event_loop node_id timeout addr h ((e, state, UnicastMessage m) # msgs) closed =
     trace_bind (respond_to_unicast_message e node_id timeout (UnicastMessage m) h state) (\<lambda>_.
     connection_event_loop node_id timeout addr h msgs closed)"
| "connection_event_loop node_id timeout addr h ((e, state, BroadcastMessage m) # msgs) closed =
     trace_bind (respond_to_broadcast_message e node_id timeout m state) (\<lambda>_.
     connection_event_loop node_id timeout addr h msgs closed)"

section \<open>Connecting and accepting\<close>

text \<open>What \<open>connect_to_seeds\<close> and \<open>start_accept\<close> do with a new stream.\<close>

definition start_reliable_sender_receiver :: "('k, 'p, 'h, 't) node_env \<Rightarrow> string \<Rightarrow> (node_call, handle) traced" where
  "start_reliable_sender_receiver e addr =
     emit (StartReliableSender (sender_for e addr)) (Done (sender_for e addr))"

declare start_reliable_sender_receiver_def [simp]

definition open_connection ::
  "('k, 'p, 'h, 't) node_env \<Rightarrow> Node \<Rightarrow> bool \<Rightarrow> string \<Rightarrow> (node_call, handle) traced" where
  "open_connection e n init addr =
     trace_bind (untraced (NoiseHandler_new (crates e) init (node_static_key_pem n))) (\<lambda>noise.
     trace_bind (retag (WriteFrame addr)
         (ConnectionHandle_start (NoiseHandler_io (crates e)) (peer_frames e addr) (peer_takes e addr) noise init)) (\<lambda>_.
     trace_bind (start_reliable_sender_receiver e addr) (\<lambda>h.
     emit (StartEventLoop addr h) (Done h))))"

definition add_to_membership ::
  "('k, 'p, 'h, 't) node_env \<Rightarrow> nat \<Rightarrow> Node \<Rightarrow> string \<Rightarrow> handle \<Rightarrow> (node_call, ConnectionResult \<times> Node) traced" where
  "add_to_membership e k n addr h =
     (let state = meanwhile e k (node_state n);
          (t, r) = MembershipHandle_add_member (membership_handle state) (env_chan (call_env e)) addr h
      in emit (AddMember addr h)
           (bind_outcome r (\<lambda>r. Done (r, n\<lparr>node_state := state\<lparr>membership_handle := t\<rparr>\<rparr>))))"

fun connect_seeds ::
  "('k, 'p, 'h, 't) node_env \<Rightarrow> nat \<Rightarrow> Node \<Rightarrow> string list \<Rightarrow> (node_call, ConnectionResult \<times> Node) traced" where
  "connect_seeds e k n [] = untraced (Done (Inr (), n))"
| "connect_seeds e k n (seed # ss) =
     (case dial e seed of
        Inl _ \<Rightarrow> untraced (Done (Inl ''Failed to connect to seed'', n))
      | Inr (Inl _) \<Rightarrow> untraced Panicked
      | Inr (Inr peer_addr) \<Rightarrow>
          trace_bind (open_connection e n False peer_addr) (\<lambda>h.
          trace_bind (add_to_membership e k n peer_addr h) (\<lambda>(r, n).
          if is_ok r then connect_seeds e (Suc k) n ss
          else untraced (Done (Inl ''Error adding new connection to membership. Stopping.'', n)))))"

definition connect_to_seeds ::
  "('k, 'p, 'h, 't) node_env \<Rightarrow> Node \<Rightarrow> (node_call, ConnectionResult \<times> Node) traced" where
  "connect_to_seeds e n = connect_seeds e 0 n (node_seeds n)"

definition send_membership ::
  "('k, 'p, 'h, 't) node_env \<Rightarrow> Node \<Rightarrow> handle \<Rightarrow> (node_call, unit) traced" where
  "send_membership e n h =
     reliable_oneshot e (get_node_id n) (node_delivery_timeout n)
       (Message_from_Membership (MembershipMessage_new (get_node_id n) None)) h (node_state n)"

text \<open>The loop of \<open>start_accept\<close> over what \<open>accept()\<close> returns; after that it waits. It returns only
  when a member cannot be added.\<close>

fun start_accept ::
  "Node \<Rightarrow> (('k, 'p, 'h, 't) node_env \<times> (string + string)) list \<Rightarrow> (node_call, Node) traced" where
  "start_accept n [] = ([], Blocked)"
| "start_accept n ((e, Inl _) # conns) = ([], Panicked)"
| "start_accept n ((e, Inr socket_addr) # conns) =
     trace_bind (open_connection e n True socket_addr) (\<lambda>h.
     trace_bind (add_to_membership e 0 n socket_addr h) (\<lambda>(r, n).
     if \<not> is_ok r then untraced (Done n)
     else
       trace_bind (reliable_oneshot e (get_node_id n) (node_delivery_timeout n)
           (Message_from_Handshake HandshakeMessage_default) h (node_state n)) (\<lambda>_.
       let n = n\<lparr>node_state := meanwhile e 1 (node_state n)\<rparr>;
           round_one_service = Protocol_new (get_node_id n) (node_state n) in
       trace_bind (tower_oneshot (tower_crate e)
           (EchoBroadcast_poll_ready (Protocol_poll_ready round_one_service))
           (retag (case_prod EchoBroadcastTo)
             (EchoBroadcast_call (Protocol_call (call_env e) round_one_service)
               (MembershipHandle_get_members (membership_handle (node_state n)) (env_chan (call_env e)))
               (echo_send e)
               (Message_from_RoundOnePackage
                 (RoundOnePackageMessage_new (get_node_id n) ''hello from round one package''))))) (\<lambda>_.
       let n = n\<lparr>node_state := meanwhile e 2 (node_state n)\<rparr> in
       trace_bind (send_membership e n h) (\<lambda>_.
       start_accept n conns)))))"

definition listen :: "('k, 'p, 'h, 't) node_env \<Rightarrow> Node \<Rightarrow> string + unit" where
  "listen e n = bind_listener e (node_bind_address n)"

definition Node_start ::
  "('k, 'p, 'h, 't) node_env \<Rightarrow> Node \<Rightarrow> (('k, 'p, 'h, 't) node_env \<times> (string + string)) list
    \<Rightarrow> (node_call, ConnectionResult \<times> Node) traced" where
  "Node_start e n conns =
     trace_bind (connect_to_seeds e n) (\<lambda>(r, n).
     if \<not> is_ok r then untraced (Done (Inl ''Connecting to seeds failed.'', n))
     else if \<not> is_ok (listen e n) then untraced (Done (Inl ''Error starting listen'', n))
     else trace_bind (start_accept n conns) (\<lambda>n. untraced (Done (Inr (), n))))"

section \<open>The program\<close>

text \<open>The struct \<open>Cli\<close> of \<open>src/src/cli/mod.rs\<close>, and what \<open>main.rs\<close> uses of other crates: \<open>clap\<close> says what the
  arguments give for \<open>config_file\<close>, if anything, or rejects them; \<open>env_logger::init\<close> returns or
  panics; \<open>set_global_default\<close> may fail.\<close>

record Cli =
  config_file :: string

record program_crates =
  clap_config_file :: "string list \<Rightarrow> string + string option"
  env_logger_init :: "unit outcome"
  set_global_default :: "string + unit"

text \<open>\<open>Cli::parse()\<close>: an error ends the program with its message; the argument has a default value.\<close>

definition Cli_parse :: "program_crates \<Rightarrow> string list \<Rightarrow> string + Cli" where
  "Cli_parse pc args =
     (case clap_config_file pc args of
        Inl usage \<Rightarrow> Inl usage
      | Inr (Some file) \<Rightarrow> Inr \<lparr>config_file = file\<rparr>
      | Inr None \<Rightarrow> Inr \<lparr>config_file = ''config.toml''\<rparr>)"

definition setup_tracing :: "program_crates \<Rightarrow> ConnectionResult" where
  "setup_tracing pc = (case set_global_default pc of Inl e \<Rightarrow> Inl e | Inr _ \<Rightarrow> Inr ())"

definition setup_logging :: "program_crates \<Rightarrow> ConnectionResult outcome" where
  "setup_logging pc = bind_outcome (env_logger_init pc) (\<lambda>_. Done (Inr ()))"

definition main ::
  "program_crates \<Rightarrow> (string \<Rightarrow> 'e + 'f) \<Rightarrow> ('f \<Rightarrow> 'e + string) \<Rightarrow> (string \<Rightarrow> string + (string \<times> toml_value) list) \<Rightarrow> string list
    \<Rightarrow> ('k, 'p, 'h, 't) node_env \<Rightarrow> (('k, 'p, 'h, 't) node_env \<times> (string + string)) list
    \<Rightarrow> (node_call, ConnectionResult) traced" where
  "main pc open_file read_to_string toml args e conns =
     (case Cli_parse pc args of
        Inl usage \<Rightarrow> untraced (Done (Inl usage))
      | Inr cli \<Rightarrow>
          trace_bind (untraced (unwrap
              (load_config_from_file open_file read_to_string toml (config_file cli)))) (\<lambda>config.
          let bind_address = get_bind_address (network config) in
          trace_bind (untraced (setup_logging pc)) (\<lambda>logging.
          if \<not> is_ok logging then untraced (Done logging)
          else if \<not> is_ok (setup_tracing pc) then untraced (Done (setup_tracing pc))
          else
            let node = Node_delivery_timeout (delivery_timeout (peer config))
                  (Node_static_key_pem (key (noise config))
                    (Node_bind_address bind_address (Node_seeds (seeds (peer config)) Node_new)))
            in trace_bind (Node_start e node conns) (\<lambda>(r, node).
               untraced (Done (if is_ok r then Inr () else Inl ''Stopping node''))))))"

text \<open>What the program does before it starts the node: which configuration it uses, and the only
  ways in which it ends without starting it.\<close>

lemma main_cases:
  assumes "env_logger_init pc \<noteq> Blocked"
  obtains (usage) err where "main pc open_file read_to_string toml args e conns = ([], Done (Inl err))"
      "clap_config_file pc args = Inl err"
  | (no_config) cli where "main pc open_file read_to_string toml args e conns = ([], Panicked)"
      "Cli_parse pc args = Inr cli"
      "load_config_from_file open_file read_to_string toml (config_file cli) = None"
  | (logger) "main pc open_file read_to_string toml args e conns = ([], Panicked)"
      "env_logger_init pc = Panicked"
  | (tracing) err where "main pc open_file read_to_string toml args e conns = ([], Done (Inl err))"
      "set_global_default pc = Inl err"
  | (starts) cli config n where "Cli_parse pc args = Inr cli"
      "load_config_from_file open_file read_to_string toml (config_file cli) = Some config"
      "main pc open_file read_to_string toml args e conns = trace_bind (Node_start e n conns)
         (\<lambda>(r, node). untraced (Done (if is_ok r then Inr () else Inl ''Stopping node'')))"
      "node_seeds n = seeds (peer config)" "get_node_id n = get_bind_address (network config)"
      "node_static_key_pem n = key (noise config)" "node_delivery_timeout n = delivery_timeout (peer config)"
proof (cases "Cli_parse pc args")
  case (Inl err)
  with usage show ?thesis by (auto simp: main_def Cli_parse_def untraced_def split: sum.splits option.splits)
next
  case (Inr cli)
  note cli = this
  show ?thesis
  proof (cases "load_config_from_file open_file read_to_string toml (config_file cli)")
    case None
    with cli no_config show ?thesis by (simp add: main_def)
  next
    case (Some config)
    with cli assms logger tracing starts show ?thesis
      by (cases "env_logger_init pc"; cases "set_global_default pc")
        (simp_all add: main_def setup_logging_def setup_tracing_def untraced_def Node_delivery_timeout_def
          Node_static_key_pem_def Node_bind_address_def Node_seeds_def get_node_id_def Let_def)
  qed
qed

section \<open>The membership in a body\<close>

lemma get_members_Running [simp]: "MembershipHandle_get_members (Running a) ch = Done (Inr (members a))"
  by (simp add: MembershipHandle_get_members_def run_membership_actor_def actor_get_members_def)

text \<open>What other tasks do to the membership is what the specification says.\<close>

lemma meanwhile_Running:
  assumes "membership_handle state = Running a"
  obtains a' where "meanwhile e k state = state\<lparr>membership_handle := Running a'\<rparr>"
    and "hm_get (members a') = foldl membership_apply (hm_get (members a)) (other_commands e k)"
  using run_membership_Running [of a "other_commands e k"] assms by (auto simp: meanwhile_def)

lemma add_to_membership_Running:
  assumes "membership_handle (meanwhile e k (node_state n)) = Running a"
  shows "add_to_membership e k n addr h = emit (AddMember addr h)
     (Done (Inr (), n\<lparr>node_state := (node_state n)
        \<lparr>membership_handle := Running (a\<lparr>members := hm_insert addr h (members a)\<rparr>)\<rparr>\<rparr>))"
  using assms
  by (simp add: add_to_membership_def MembershipHandle_add_member_def run_membership_actor_def
      actor_add_member_def meanwhile_def)

lemma retag_simps [simp]: "fst (retag f run) = map f (fst run)" "snd (retag f run) = snd run"
  by (simp_all add: retag_def)

lemma trace_bind_eq:
  "trace_bind run f = (case snd run of
       Done a \<Rightarrow> (fst run @ fst (f a), snd (f a))
     | Panicked \<Rightarrow> (fst run, Panicked)
     | Blocked \<Rightarrow> (fst run, Blocked))"
  by (cases run; cases "snd run") (auto simp: split_beta)

lemma tower_oneshot_ready: "tower_law tw \<Longrightarrow> tower_oneshot tw (Ready (Inr ())) run = run"
  unfolding tower_law_def by blast

lemma tower_timeout_cases:
  assumes "tower_law tw"
  obtains "tower_timeout tw d run = run" "snd run \<noteq> Blocked"
  | err where "prefix (fst (tower_timeout tw d run)) (fst run)" "snd (tower_timeout tw d run) = Done (Inl err)"
  using assms unfolding tower_law_def by metis

text \<open>A service chain returns whatever the peer does: the timeout cuts a wait short.\<close>

lemma reliable_oneshot_returns:
  assumes "tower_law (tower_crate e)" and "membership_handle state = Running a"
    and "0 \<le> env_now (call_env e)" and "\<forall>m. reliable_send e h m \<noteq> Panicked"
  shows "\<exists>tr. reliable_oneshot e node_id timeout message h state = (tr, Done ())
     \<and> prefix tr (map (ReliableSendTo h)
         (case Protocol_call (call_env e) (Protocol_new node_id state) message of
            Done (Inr (Some reply)) \<Rightarrow> [reply] | _ \<Rightarrow> []))"
proof -
  let ?inner = "Protocol_call (call_env e) (Protocol_new node_id state)"
  let ?run = "retag (ReliableSendTo h) (ReliableSend_call ?inner (reliable_send e h) message)"
  obtain r where r: "?inner message = Done (Inr r)"
    using Protocol_call_returns [OF assms(2,3)] by blast
  have "snd ?run \<noteq> Panicked"
  proof (cases r)
    case (Some reply)
    with r assms(4) show ?thesis
      by (cases "reliable_send e h reply") (auto simp: ReliableSend_call_def)
  qed (simp add: r ReliableSend_call_def)
  note not_panicked = this
  have tr: "fst ?run = map (ReliableSendTo h) (case ?inner message of Done (Inr (Some reply)) \<Rightarrow> [reply] | _ \<Rightarrow> [])"
    by (simp add: ReliableSend_call_trace)
  have eq: "reliable_oneshot e node_id timeout message h state
      = trace_bind (tower_timeout (tower_crate e) timeout ?run) (\<lambda>_. untraced (Done ()))"
    by (simp add: reliable_oneshot_def ReliableSend_poll_ready_def Protocol_poll_ready_def
        tower_oneshot_ready [OF assms(1)])
  show ?thesis
  proof (rule tower_timeout_cases [OF assms(1), of timeout ?run])
    assume "tower_timeout (tower_crate e) timeout ?run = ?run" and "snd ?run \<noteq> Blocked"
    with not_panicked show ?thesis unfolding eq tr [symmetric]
      by (cases "snd ?run") (simp_all add: trace_bind_eq del: retag_simps)
  next
    fix err
    assume "prefix (fst (tower_timeout (tower_crate e) timeout ?run)) (fst ?run)"
      and "snd (tower_timeout (tower_crate e) timeout ?run) = Done (Inl err)"
    then show ?thesis unfolding eq tr [symmetric]
      by (simp add: trace_bind_eq del: retag_simps)
  qed
qed

section \<open>Calls the node does not make\<close>

text \<open>\<open>EchoReceive\<close> stands for a call of \<open>EchoBroadcastHandle::receive\<close>. It does not occur in any trace
  of the node. A removal, which the strict form excludes as well, occurs only at the end of an event
  loop.\<close>

definition without :: "bool \<Rightarrow> node_call list \<Rightarrow> bool" where
  "without strict tr \<longleftrightarrow> (\<forall>m mid. EchoReceive m mid \<notin> set tr) \<and> (strict \<longrightarrow> (\<forall>addr. RemoveMember addr \<notin> set tr))"

named_theorems without

lemma without_simps [without]:
  "without b []" "without b (fst (untraced r))"
  "without b (fst (emit (AddMember addr h) a))" "without False (fst (emit (RemoveMember addr) x'))"
  "without b (fst (emit (StartReliableSender h) c))" "without b (fst (emit (StartEventLoop addr h) d))"
  "without b (fst (emit (EchoBroadcastTo m peers) x))"
  by (simp_all add: without_def emit_def)

lemma without_bind [without]:
  "without b (fst run) \<Longrightarrow> (\<And>a. without b (fst (f a))) \<Longrightarrow> without b (fst (trace_bind run f))"
  by (auto simp: trace_bind_eq without_def split: outcome.splits)

lemma without_retag [without]:
  "without b (fst (retag (WriteFrame addr) run))" "without b (fst (retag (ReliableSendTo h) run'))"
  "without b (fst (retag (case_prod EchoBroadcastTo) run''))"
  by (auto simp: without_def)

lemma without_prefix: "prefix xs ys \<Longrightarrow> without b ys \<Longrightarrow> without b xs"
  by (auto simp: without_def dest!: set_mono_prefix)

lemma without_timeout:
  assumes "tower_law tw" and "without b (fst run)"
  shows "without b (fst (tower_oneshot tw (Ready (Inr ())) (tower_timeout tw d run)))"
  unfolding tower_oneshot_ready [OF assms(1)]
  by (rule tower_timeout_cases [OF assms(1), of d run])
    (use assms(2) in \<open>auto intro: without_prefix\<close>)

lemma services_ready:
  "ReliableSend_poll_ready (Protocol_poll_ready p) = Ready (Inr ())"
  "EchoBroadcast_poll_ready (Protocol_poll_ready p) = Ready (Inr ())"
  by (simp_all add: ReliableSend_poll_ready_def EchoBroadcast_poll_ready_def Protocol_poll_ready_def)

lemma without_oneshot:
  assumes "tower_law (tower_crate e)"
  shows "without b (fst (reliable_oneshot e node_id d m h state))"
  unfolding reliable_oneshot_def Let_def services_ready
  by (intro without without_timeout [OF assms])

lemma without_event_loop:
  assumes "\<forall>(e, state, m) \<in> set msgs. tower_law (tower_crate e)" and "b \<longrightarrow> closed = None"
  shows "without b (fst (connection_event_loop node_id d addr h msgs closed))"
  using assms
proof (induction node_id d addr h msgs closed rule: connection_event_loop.induct)
  case (3 node_id d addr h e state m msgs closed)
  then show ?case
    by (auto simp: respond_to_unicast_message_def intro!: without_bind without_oneshot)
next
  case (4 node_id d addr h e state m msgs closed)
  then have "without b (fst (respond_to_broadcast_message e node_id d m state))"
    unfolding respond_to_broadcast_message_def Let_def services_ready
    by (intro without without_timeout) auto
  with 4 show ?case by (auto intro!: without_bind)
qed (auto simp: without split: prod.splits)

lemma without_connecting [without]:
  "without b (fst (open_connection e n init addr))" "without b (fst (add_to_membership e k n addr h))"
  unfolding open_connection_def add_to_membership_def start_reliable_sender_receiver_def
  by (intro without) (simp add: without Let_def split: prod.splits)

lemma without_connect_seeds [without]: "without b (fst (connect_seeds e k n ss))"
  by (induction e k n ss rule: connect_seeds.induct)
    (auto simp: without split: sum.splits intro!: without_bind without_connecting)

lemma without_start_accept:
  assumes "\<forall>(e, conn) \<in> set conns. tower_law (tower_crate e)"
  shows "without b (fst (start_accept n conns))"
  using assms
proof (induction n conns rule: start_accept.induct)
  case (3 n e addr conns)
  then have law: "tower_law (tower_crate e)" by simp
  show ?case
    unfolding start_accept.simps Let_def services_ready tower_oneshot_ready [OF law] send_membership_def
    using 3
    by (auto split: prod.splits intro!: without without_oneshot [OF law])
qed (simp_all add: without)

lemma without_start:
  assumes "\<forall>(e, conn) \<in> set conns. tower_law (tower_crate e)"
  shows "without b (fst (Node_start e n conns))"
  unfolding Node_start_def connect_to_seeds_def
  by (auto split: prod.splits intro!: without without_start_accept [OF assms])

section \<open>A concrete environment\<close>

text \<open>For the concrete instances of the properties: a \<open>tower\<close> whose timeout strikes calls that would
  never return, and a network whose peers send the given frames.\<close>

definition patient_tower :: tower where
  "patient_tower =
     \<lparr>tower_oneshot = (\<lambda>ready run. case ready of Ready (Inr _) \<Rightarrow> run | Ready (Inl err) \<Rightarrow> ([], Done (Inl err))
                        | Pending \<Rightarrow> ([], Blocked)),
      tower_timeout = (\<lambda>d run. if snd run = Blocked then (fst run, Done (Inl ''request timed out'')) else run)\<rparr>"

lemma patient_tower_law: "tower_law patient_tower"
  by (auto simp: tower_law_def patient_tower_def)

definition sample_env :: "reader \<Rightarrow> (string, unit, nat, nat \<times> nat) node_env" where
  "sample_env frames =
     \<lparr>crates = counting_crates, dial = (\<lambda>seed. Inr (Inr seed)), bind_listener = (\<lambda>addr. Inr ()),
      peer_frames = (\<lambda>addr. frames), peer_takes = (\<lambda>addr. takes_all), sender_for = length,
      call_env = \<lparr>env_now = 7, env_hasher = (\<lambda>s. of_nat (length s)), env_chan = 0\<rparr>,
      reliable_send = (\<lambda>h m. Done (Inr ())), echo_send = (\<lambda>m peers. Blocked),
      other_commands = (\<lambda>k. []), tower_crate = patient_tower\<rparr>"

definition sample_node :: Node where
  "sample_node = Node_static_key_pem ''key'' (Node_bind_address ''localhost:6681'' Node_new)"

lemma sample_membership: "membership_handle (node_state sample_node) = Running MembershipActor_start"
  by (simp add: sample_node_def Node_static_key_pem_def Node_bind_address_def Node_new_def
      MembershipHandle_start_def Let_def)

lemma sample_meanwhile:
  "membership_handle (meanwhile (sample_env frames) k (node_state sample_node)) = Running MembershipActor_start"
  by (simp add: meanwhile_def sample_env_def sample_membership run_membership_actor_def)

lemma sample_key: "node_static_key_pem sample_node = ''key''"
  by (simp add: sample_node_def Node_static_key_pem_def)

lemma sample_opened:
  "\<exists>tr t. ConnectionHandle_start (NoiseHandler_io counting_crates) ([Inr [1], Inr [3]], False) takes_all
     \<lparr>handshake_state = Some 0, transport_state = None, noise_initiator = False\<rparr> False = (tr, Done (t, [], False))"
  by (simp add: ConnectionHandle_start_def ConnectionActor_start_def run_handshake_def write_frame_def
      responder_handshake_def NoiseHandler_read_handshake_message_def NoiseHandler_build_handshake_message_def
      NoiseHandler_start_transport_def counting_buffers counting_into_transport bytes_of_def
      emit_def untraced_def)

text \<open>The commands the membership actor serves while the node connects: those of other tasks, and one
  \<open>Add\<close> for each seed.\<close>

fun seed_commands :: "('k, 'p, 'h, 't) node_env \<Rightarrow> nat \<Rightarrow> string list \<Rightarrow> MembershipCommand list" where
  "seed_commands e k [] = []"
| "seed_commands e k (addr # addrs) =
     other_commands e k @ Add addr (sender_for e addr) (env_chan (call_env e)) # seed_commands e (Suc k) addrs"

lemma connect_seeds_joins:
  assumes "membership_handle (node_state n) = Running a"
    and "connect_seeds e k n ss = (tr, Done (Inr (), n'))"
  shows "\<exists>addrs a'. map (dial e) ss = map (\<lambda>x. Inr (Inr x)) addrs
     \<and> n' = n\<lparr>node_state := (node_state n)\<lparr>membership_handle := Running a'\<rparr>\<rparr>
     \<and> hm_get (members a') = foldl membership_apply (hm_get (members a)) (seed_commands e k addrs)"
  using assms
proof (induction ss arbitrary: k n a tr)
  case Nil
  then show ?case by (intro exI [of _ "[]"] exI [of _ a]) (auto simp: untraced_def)
next
  case (Cons seed ss)
  from Cons.prems(2) obtain addr where addr: "dial e seed = Inr (Inr addr)"
    by (auto simp: untraced_def split: sum.splits)
  obtain b where "meanwhile e k (node_state n) = (node_state n)\<lparr>membership_handle := Running b\<rparr>"
    and b: "hm_get (members b) = foldl membership_apply (hm_get (members a)) (other_commands e k)"
    using Cons.prems(1) by (rule meanwhile_Running)
  then have mid: "membership_handle (meanwhile e k (node_state n)) = Running b" by simp
  let ?a = "b\<lparr>members := hm_insert addr (sender_for e addr) (members b)\<rparr>"
  let ?n = "n\<lparr>node_state := (node_state n)\<lparr>membership_handle := Running ?a\<rparr>\<rparr>"
  have opened: "h = sender_for e addr" if "snd (open_connection e n False addr) = Done h" for h
    using that by (auto simp: open_connection_def trace_bind_Done emit_def)
  from Cons.prems(2) addr opened obtain tr1 where rest: "connect_seeds e (Suc k) ?n ss = (tr1, Done (Inr (), n'))"
    by (auto simp: trace_bind_eq add_to_membership_Running [OF mid] emit_def prod_eq_iff
        split: outcome.splits)
  have "membership_handle (node_state ?n) = Running ?a" by simp
  from Cons.IH [OF this rest] obtain addrs a' where
    "map (dial e) ss = map (\<lambda>x. Inr (Inr x)) addrs"
    "n' = ?n\<lparr>node_state := (node_state ?n)\<lparr>membership_handle := Running a'\<rparr>\<rparr>"
    "hm_get (members a') = foldl membership_apply (hm_get (members ?a)) (seed_commands e (Suc k) addrs)"
    by (elim exE conjE) (rule that)
  with addr b show ?case
    by (intro exI [of _ "addr # addrs"] exI [of _ a']) (simp add: hm.get_ins_eq)
qed

text \<open>A service chain for a message that has a reply sends at most the reply, and exactly it if no
  timeout strikes and the send returns.\<close>

definition no_timeout :: "('k, 'p, 'h, 't) node_env \<Rightarrow> handle \<Rightarrow> bool" where
  "no_timeout e h \<longleftrightarrow> (\<forall>d run. snd run \<noteq> Blocked \<longrightarrow> tower_timeout (tower_crate e) d run = run)
     \<and> (\<forall>m. reliable_send e h m \<noteq> Blocked)"

lemma reliable_oneshot_sends:
  assumes "tower_law (tower_crate e)" and "membership_handle state = Running a"
    and "0 \<le> env_now (call_env e)" and "\<forall>m. reliable_send e h m \<noteq> Panicked"
    and "Protocol_call (call_env e) (Protocol_new node_id state) message = Done (Inr (Some reply))"
  obtains tr where "reliable_oneshot e node_id timeout message h state = (tr, Done ())"
    and "prefix tr [ReliableSendTo h reply]" and "no_timeout e h \<longrightarrow> tr = [ReliableSendTo h reply]"
proof -
  obtain tr where tr: "reliable_oneshot e node_id timeout message h state = (tr, Done ())"
    "prefix tr [ReliableSendTo h reply]"
    using reliable_oneshot_returns [OF assms(1-4)] assms(5) by fastforce
  have "tr = [ReliableSendTo h reply]" if quick: "no_timeout e h"
  proof -
    let ?run = "retag (ReliableSendTo h) (ReliableSend_call (Protocol_call (call_env e) (Protocol_new node_id state))
        (reliable_send e h) message)"
    obtain res where res: "reliable_send e h reply = Done res"
      using quick assms(4) by (cases "reliable_send e h reply") (auto simp: no_timeout_def)
    have "\<exists>x. ?run = ([ReliableSendTo h reply], Done x)"
      using assms(5) res by (simp add: ReliableSend_call_def retag_def)
    then have "\<exists>x. tower_timeout (tower_crate e) timeout ?run = ([ReliableSendTo h reply], Done x)"
      using quick unfolding no_timeout_def by (metis outcome.distinct(3) snd_conv)
    with tr(1) show ?thesis
      by (auto simp: reliable_oneshot_def services_ready tower_oneshot_ready [OF assms(1)] untraced_def)
  qed
  with that tr show ?thesis by blast
qed

text \<open>The messages of a round: the greeting, the broadcast and the list of members.\<close>

abbreviation helo_from :: "string \<Rightarrow> Message" where
  "helo_from node_id \<equiv> UnicastMessage (Handshake (HandshakeMessage_new node_id ''helo'' ''0.1.0''))"

abbreviation round_one_from :: "string \<Rightarrow> MessageId \<Rightarrow> Message" where
  "round_one_from node_id mid \<equiv> BroadcastMessage (RoundOnePackage
     (RoundOnePackageMessage_new node_id ''hello from round one package'') (Some mid))"

abbreviation member_list_from :: "string \<Rightarrow> MembershipActor \<Rightarrow> Message" where
  "member_list_from node_id a \<equiv> UnicastMessage (Membership (MembershipMessage_new node_id (Some (hm_keys (members a)))))"

lemma round_calls:
  fixes node_id :: string
  assumes "next_id (env_hasher (call_env e)) (env_now (call_env e)) (message_id_generator state) = Done mid"
  defines "p \<equiv> \<lambda>a. Protocol_new node_id (state\<lparr>membership_handle := Running a\<rparr>)"
  shows "Protocol_call (call_env e) (p a) (Message_from_Handshake HandshakeMessage_default)
      = Done (Inr (Some (helo_from node_id)))"
    and "Protocol_call (call_env e) (p a) (Message_from_Membership (MembershipMessage_new node_id None))
      = Done (Inr (Some (member_list_from node_id a)))"
    and "Protocol_call (call_env e) (p a) (Message_from_RoundOnePackage m)
      = Done (Inr (Some (BroadcastMessage (RoundOnePackage m (Some mid)))))"
  using assms(1) by (simp_all add: p_def Protocol_new_def message_defs)

text \<open>One round of the accept loop with a peer that completes the handshake. The membership is \<open>a1\<close>,
  \<open>a2\<close> and \<open>a3\<close> when the round adds the peer, reads the members for the broadcast, and reads them for
  the membership message.\<close>

lemma accept_round:
  assumes "tower_law (tower_crate e)"
    and "open_connection e n True addr = (tr, Done h)"
    and "meanwhile e 0 (node_state n) = (node_state n)\<lparr>membership_handle := Running a1\<rparr>"
    and "meanwhile e 1 ((node_state n)\<lparr>membership_handle := Running (a1\<lparr>members := hm_insert addr h (members a1)\<rparr>)\<rparr>)
      = (node_state n)\<lparr>membership_handle := Running a2\<rparr>"
    and "meanwhile e 2 ((node_state n)\<lparr>membership_handle := Running a2\<rparr>)
      = (node_state n)\<lparr>membership_handle := Running a3\<rparr>"
    and "n' = n\<lparr>node_state := (node_state n)\<lparr>membership_handle := Running a3\<rparr>\<rparr>"
    and "next_id (env_hasher (call_env e)) (env_now (call_env e)) (message_id_generator (node_state n)) = Done mid"
    and "\<forall>m. reliable_send e h m \<noteq> Panicked"
  defines "B \<equiv> round_one_from (get_node_id n) mid"
  obtains greet list where "prefix greet [ReliableSendTo h (helo_from (get_node_id n))]"
    and "prefix list [ReliableSendTo h (member_list_from (get_node_id n) a3)]"
    and "no_timeout e h \<longrightarrow> greet = [ReliableSendTo h (helo_from (get_node_id n))]
       \<and> list = [ReliableSendTo h (member_list_from (get_node_id n) a3)]"
    and "start_accept n ((e, Inr addr) # conns) =
      trace_bind (tr @ AddMember addr h # greet @ [EchoBroadcastTo B (members a2)], echo_send e B (members a2))
        (\<lambda>_. trace_bind (list, Done ()) (\<lambda>_. start_accept n' conns))"
proof -
  let ?st = "\<lambda>a. (node_state n)\<lparr>membership_handle := Running a\<rparr>"
  have id: "get_node_id (n\<lparr>node_state := st\<rparr>) = get_node_id n" for st by (simp add: get_node_id_def)
  have added: "membership_handle (meanwhile e 0 (node_state n)) = Running a1" using assms(3) by simp
  have now: "0 \<le> env_now (call_env e)" using assms(7) by (simp add: next_id_Done)
  have running: "membership_handle (?st a) = Running a" for a by simp
  note calls = round_calls [OF assms(7), of "get_node_id n"]
  obtain greet where greet: "reliable_oneshot e (get_node_id n) (node_delivery_timeout n)
      (Message_from_Handshake HandshakeMessage_default) h (?st (a1\<lparr>members := hm_insert addr h (members a1)\<rparr>)) = (greet, Done ())"
    "prefix greet [ReliableSendTo h (helo_from (get_node_id n))]"
    "no_timeout e h \<longrightarrow> greet = [ReliableSendTo h (helo_from (get_node_id n))]"
    using assms(1) running now assms(8) calls(1) by (rule reliable_oneshot_sends)
  obtain list where list: "reliable_oneshot e (get_node_id n) (node_delivery_timeout n)
      (Message_from_Membership (MembershipMessage_new (get_node_id n) None)) h (?st a3) = (list, Done ())"
    "prefix list [ReliableSendTo h (member_list_from (get_node_id n) a3)]"
    "no_timeout e h \<longrightarrow> list = [ReliableSendTo h (member_list_from (get_node_id n) a3)]"
    using assms(1) running now assms(8) calls(2) by (rule reliable_oneshot_sends)
  have "start_accept n ((e, Inr addr) # conns) =
      trace_bind (tr @ AddMember addr h # greet @ [EchoBroadcastTo B (members a2)], echo_send e B (members a2))
        (\<lambda>_. trace_bind (list, Done ()) (\<lambda>_. start_accept n' conns))"
    unfolding assms(6) B_def
    by (simp add: assms(2) add_to_membership_Running [OF added] assms(4) [unfolded One_nat_def] assms(5) id
        greet(1) list(1) send_membership_def services_ready tower_oneshot_ready [OF assms(1)]
        EchoBroadcast_call_def calls(3) retag_def Let_def trace_bind_eq emit_def untraced_def split: outcome.split)
  with that greet(2,3) list(2,3) show ?thesis by blast
qed

text \<open>The views of the membership that a round meets.\<close>

lemma accept_views:
  assumes "membership_handle (node_state n) = Running a"
  obtains a1 a2 a3 where "meanwhile e 0 (node_state n) = (node_state n)\<lparr>membership_handle := Running a1\<rparr>"
    and "meanwhile e 1 ((node_state n)\<lparr>membership_handle := Running (a1\<lparr>members := hm_insert addr h (members a1)\<rparr>)\<rparr>)
      = (node_state n)\<lparr>membership_handle := Running a2\<rparr>"
    and "meanwhile e 2 ((node_state n)\<lparr>membership_handle := Running a2\<rparr>)
      = (node_state n)\<lparr>membership_handle := Running a3\<rparr>"
    and "hm_get (members a2) = foldl membership_apply (hm_get (members a))
      (other_commands e 0 @ Add addr h 0 # other_commands e 1)"
    and "hm_get (members a3) = foldl membership_apply (hm_get (members a2)) (other_commands e 2)"
proof -
  obtain a1 where 1: "meanwhile e 0 (node_state n) = (node_state n)\<lparr>membership_handle := Running a1\<rparr>"
    "hm_get (members a1) = foldl membership_apply (hm_get (members a)) (other_commands e 0)"
    using assms by (rule meanwhile_Running)
  let ?st = "(node_state n)\<lparr>membership_handle := Running (a1\<lparr>members := hm_insert addr h (members a1)\<rparr>)\<rparr>"
  have "membership_handle ?st = Running (a1\<lparr>members := hm_insert addr h (members a1)\<rparr>)" by simp
  then obtain a2 where 2: "meanwhile e 1 ?st = ?st\<lparr>membership_handle := Running a2\<rparr>"
    "hm_get (members a2) = foldl membership_apply (hm_get (members (a1\<lparr>members := hm_insert addr h (members a1)\<rparr>)))
       (other_commands e 1)"
    by (rule meanwhile_Running)
  let ?st2 = "(node_state n)\<lparr>membership_handle := Running a2\<rparr>"
  have "membership_handle ?st2 = Running a2" by simp
  then obtain a3 where 3: "meanwhile e 2 ?st2 = ?st2\<lparr>membership_handle := Running a3\<rparr>"
    "hm_get (members a3) = foldl membership_apply (hm_get (members a2)) (other_commands e 2)"
    by (rule meanwhile_Running)
  from 1(2) 2(2) have "hm_get (members a2) = foldl membership_apply (hm_get (members a))
      (other_commands e 0 @ Add addr h 0 # other_commands e 1)" by (simp add: hm.get_ins_eq)
  with that [OF 1(1) _ _ _ 3(2)] 2(1) 3(1) show ?thesis by simp
qed

definition sample_accept_env :: "(string, unit, nat, nat \<times> nat) node_env" where
  "sample_accept_env = (sample_env ([Inr [2]], False))\<lparr>echo_send := \<lambda>m peers. Done (Inr ())\<rparr>"

lemma sample_accept_simps:
  "other_commands sample_accept_env k = []" "reliable_send sample_accept_env h m = Done (Inr ())"
  "echo_send sample_accept_env m peers = Done (Inr ())"
  by (simp_all add: sample_accept_env_def sample_env_def)

lemma sample_accepted:
  obtains tr where "open_connection sample_accept_env sample_node True ''peer'' = (tr, Done 4)"
  by (simp add: open_connection_def sample_accept_env_def sample_env_def sample_key counting_new retag_def
      ConnectionHandle_start_def ConnectionActor_start_def run_handshake_def initiator_handshake_def write_frame_def
      NoiseHandler_read_handshake_message_def NoiseHandler_build_handshake_message_def
      NoiseHandler_start_transport_def counting_buffers counting_into_transport bytes_of_def
      emit_def untraced_def)

lemma sample_accept_law: "tower_law (tower_crate sample_accept_env)"
  by (simp add: sample_accept_env_def sample_env_def patient_tower_law)

lemma sample_accept_patient:
  "\<forall>d run. snd run \<noteq> Blocked \<longrightarrow> tower_timeout (tower_crate sample_accept_env) d run = run"
  by (simp add: sample_accept_env_def sample_env_def patient_tower_def)

lemma sample_id: "get_node_id sample_node = ''localhost:6681''"
  by (simp add: sample_node_def get_node_id_def Node_static_key_pem_def Node_bind_address_def)

lemma sample_accept_id:
  "next_id (env_hasher (call_env sample_accept_env)) (env_now (call_env sample_accept_env))
      (message_id_generator (node_state sample_node)) = Done (MessageId 10)"
  by (simp add: sample_accept_env_def sample_env_def sample_node_def Node_static_key_pem_def Node_bind_address_def
      Node_new_def Let_def next_id_def calculate_hash_def MessageIdGenerator_new_def decimal_eval)

section \<open>Properties\<close>

text \<open>C26. The event loop gets past every unicast message, whether or not the peer acknowledges the
  reply in time: it hands the connection's reliable sender at most the reply the protocol
  prescribes, and nothing if there is none.\<close>

theorem unicast_gets_protocol_reply:
  assumes "tower_law (tower_crate e)" and "membership_handle state = Running a"
    and "0 \<le> env_now (call_env e)" and "\<forall>m. reliable_send e h m \<noteq> Panicked"
  shows "\<exists>tr. respond_to_unicast_message e node_id timeout message h state = (tr, Done ())
     \<and> prefix tr (map (ReliableSendTo h)
         (case Protocol_call (call_env e) (Protocol_new node_id state) message of
            Done (Inr (Some reply)) \<Rightarrow> [reply] | _ \<Rightarrow> []))"
  unfolding respond_to_unicast_message_def using assms by (rule reliable_oneshot_returns)

theorem unicast_gets_protocol_reply_witness:
  "\<exists>tr. respond_to_unicast_message (sample_env ([], False)) ''n'' 500
       (Message_from_Ping (PingMessage_new ''p'' ''ping'')) 1 (node_state sample_node) = (tr, Done ())
     \<and> prefix tr [ReliableSendTo 1 (Message_from_Ping (PingMessage_new ''n'' ''pong''))]"
  using unicast_gets_protocol_reply [of "sample_env ([], False)" "node_state sample_node"
      MembershipActor_start 1 "''n''" 500 "Message_from_Ping (PingMessage_new ''p'' ''ping'')"]
  by (simp add: sample_env_def patient_tower_law sample_membership Protocol_new_def message_defs)

text \<open>C38. A broadcast message is different: it is sent on to all members at once and the event loop
  waits for that without a timeout. While it waits, no later message of that connection is
  looked at, and the clean-up at the end of the loop does not happen.\<close>

theorem broadcast_blocks_event_loop:
  assumes "membership_handle state = Running a"
    and "echo_send e (BroadcastMessage b) (members a) = Blocked"
  shows "connection_event_loop node_id timeout addr h ((e, state, BroadcastMessage b) # msgs) closed
     = ([EchoBroadcastTo (BroadcastMessage b) (members a)], Blocked)"
  using assms by (simp add: respond_to_broadcast_message_def)

theorem broadcast_blocks_event_loop_witness:
  "connection_event_loop ''n'' 500 ''peer'' 1
     [(sample_env ([], False), node_state sample_node, package_from ''p'' 3),
      (sample_env ([], False), node_state sample_node, Message_from_Ping PingMessage_default)] None
   = ([EchoBroadcastTo (package_from ''p'' 3) (members MembershipActor_start)], Blocked)"
  by (rule broadcast_blocks_event_loop) (simp_all add: sample_membership sample_env_def)

text \<open>C37. The handshake runs in the accept loop itself: a peer that connects and sends nothing stops
  the node from accepting anybody else, and so does one that does not take the first frame; a peer
  that connects and disconnects ends the loop with a panic, whatever connections would have come
  next.\<close>

theorem peer_without_handshake_stops_accepting:
  assumes "NoiseHandler_new (crates e) True (node_static_key_pem n) = Done i"
    and "NoiseHandler_build_handshake_message (crates e) i (bytes_of ''1'') = Done (m1, i')"
    and "peer_frames e addr = ([], ended)"
  shows "start_accept n ((e, Inr addr) # conns)
     = ([WriteFrame addr m1], if ended \<and> peer_takes e addr m1 then Panicked else Blocked)"
  using assms
  by (simp add: open_connection_def ConnectionHandle_start_def ConnectionActor_start_def
      run_handshake_def initiator_handshake_def write_frame_def retag_def)

theorem peer_without_handshake_stops_accepting_witness:
  "start_accept sample_node ((sample_env ([], True), Inr ''peer'') # [(sample_env ([], False), Inr ''good'')])
   = ([WriteFrame ''peer'' (bytes_of ''1'')], Panicked)"
  using peer_without_handshake_stops_accepting [of "sample_env ([], True)" sample_node _ "bytes_of ''1''" _ "''peer''" True
      "[(sample_env ([], False), Inr ''good'')]"]
  by (simp add: sample_env_def sample_node_def Node_static_key_pem_def counting_new
      NoiseHandler_build_handshake_message_def counting_buffers bytes_of_def)

text \<open>C27. \<open>connect_to_seeds\<close> succeeds only if every seed answered. Then each address of a seed has been
  added to the membership with the reliable sender of its connection, in the order of the
  seeds; the membership is what these additions make of it together with the commands of other
  tasks served in between, and nothing else of the node has changed.\<close>

theorem connect_to_seeds_joins_all:
  assumes "membership_handle (node_state n) = Running a"
    and "connect_to_seeds e n = (tr, Done (Inr (), n'))"
  shows "\<exists>addrs a'. map (dial e) (node_seeds n) = map (\<lambda>x. Inr (Inr x)) addrs
     \<and> n' = n\<lparr>node_state := (node_state n)\<lparr>membership_handle := Running a'\<rparr>\<rparr>
     \<and> hm_get (members a') = foldl membership_apply (hm_get (members a)) (seed_commands e 0 addrs)"
  using connect_seeds_joins [OF assms(1)] assms(2) by (simp add: connect_to_seeds_def)

theorem connect_to_seeds_joins_all_witness:
  "\<exists>tr n' addrs a'.
     connect_to_seeds (sample_env ([Inr [1], Inr [3]], False)) sample_node = (tr, Done (Inr (), n'))
     \<and> n' = sample_node\<lparr>node_state := (node_state sample_node)\<lparr>membership_handle := Running a'\<rparr>\<rparr>
     \<and> map (dial (sample_env ([Inr [1], Inr [3]], False))) [''localhost:6680''] = map (\<lambda>x. Inr (Inr x)) addrs
     \<and> hm_get (members a') = foldl membership_apply (hm_get (members MembershipActor_start))
         (seed_commands (sample_env ([Inr [1], Inr [3]], False)) 0 addrs)"
proof -
  let ?e = "sample_env ([Inr [1], Inr [3]], False)"
  have seeds: "node_seeds sample_node = [''localhost:6680'']"
    by (simp add: sample_node_def Node_static_key_pem_def Node_bind_address_def Node_new_def Let_def)
  obtain tr t where "ConnectionHandle_start (NoiseHandler_io counting_crates) ([Inr [1], Inr [3]], False) takes_all
      \<lparr>handshake_state = Some 0, transport_state = None, noise_initiator = False\<rparr> False
      = (tr, Done (t, [], False))"
    using sample_opened by blast
  then have "\<exists>tr n'. connect_to_seeds ?e sample_node = (tr, Done (Inr (), n'))"
    by (simp add: connect_to_seeds_def seeds open_connection_def sample_env_def sample_key counting_new
        retag_def add_to_membership_Running [OF sample_meanwhile [unfolded sample_env_def]] emit_def untraced_def)
  then obtain tr n' where run: "connect_to_seeds ?e sample_node = (tr, Done (Inr (), n'))" by blast
  from connect_to_seeds_joins_all [OF sample_membership run] run show ?thesis
    unfolding seeds by blast
qed

text \<open>C31. The event loop of a connection that ends has removed the connection's address from the
  membership, as its last act: the address is no longer a member and the others are untouched.\<close>

theorem event_loop_removes_member:
  assumes "connection_event_loop node_id timeout addr h msgs (Some (Running a, ch)) = (tr, Done t)"
  shows "\<exists>tr' a'. tr = tr' @ [RemoveMember addr] \<and> t = Running a'
     \<and> hm_get (members a') = (hm_get (members a))(addr := None)"
  using assms
proof (induction msgs arbitrary: tr)
  case Nil
  then show ?case
    by (auto simp: MembershipHandle_remove_member_def run_membership_actor_def actor_remove_member_def
        Let_def emit_def fun_eq_iff hm_simps split: option.splits)
next
  case (Cons x msgs)
  obtain e state m where x: "x = (e, state, m)" by (cases x)
  let ?loop = "connection_event_loop node_id timeout addr h"
  obtain run where "(tr, Done t) = trace_bind (run :: (node_call, unit) traced)
      (\<lambda>_. ?loop msgs (Some (Running a, ch)))"
  proof (cases m)
    case (UnicastMessage u)
    with Cons.prems show ?thesis
      by (intro that [of "respond_to_unicast_message e node_id timeout (UnicastMessage u) h state"])
        (simp add: x)
  next
    case (BroadcastMessage b)
    with Cons.prems show ?thesis
      by (intro that [of "respond_to_broadcast_message e node_id timeout b state"]) (simp add: x)
  qed
  then obtain tr1 where "?loop msgs (Some (Running a, ch)) = (tr1, Done t)" and "tr = fst run @ tr1"
    by (auto simp: trace_bind_eq prod_eq_iff split: outcome.splits)
  with Cons.IH show ?case by fastforce
qed

theorem event_loop_removes_member_witness:
  "\<exists>tr t. connection_event_loop ''n'' 500 ''b'' 2
       [(sample_env ([], False), node_state sample_node, Message_from_Ping PingMessage_default)]
       (Some (Running \<lparr>members = [(''b'', 2), (''c'', 3)]\<rparr>, 0)) = (tr, Done t)
     \<and> (\<exists>tr' a'. tr = tr' @ [RemoveMember ''b''] \<and> t = Running a'
          \<and> hm_get (members a') = (hm_get [(''b'', 2), (''c'', 3)])(''b'' := None))"
proof -
  let ?a = "\<lparr>members = [(''b'', 2), (''c'', 3)]\<rparr>"
    and ?msgs = "[(sample_env ([], False), node_state sample_node, Message_from_Ping PingMessage_default)]"
  have "\<exists>tr t. connection_event_loop ''n'' 500 ''b'' 2 ?msgs (Some (Running ?a, 0)) = (tr, Done t)"
    by (simp add: message_defs respond_to_unicast_message_def reliable_oneshot_def sample_env_def
        patient_tower_def Protocol_poll_ready_def ReliableSend_poll_ready_def Protocol_new_def
        ReliableSend_call_def retag_def MembershipHandle_remove_member_def run_membership_actor_def
        actor_remove_member_def emit_def untraced_def hm_eval)
  then obtain tr t where run: "connection_event_loop ''n'' 500 ''b'' 2 ?msgs (Some (Running ?a, 0)) = (tr, Done t)"
    by blast
  from run event_loop_removes_member [OF run] show ?thesis by auto
qed

text \<open>C39. The message ids of a node do not depend on its address: the generator is built with the
  default address before the real one is set. So the broadcasts that two different nodes start
  at the same instant carry the same id, under which the echo broadcast actor mixes them up.\<close>

theorem concurrent_broadcasts_share_id:
  assumes "n = Node_bind_address address Node_new" and "n' = Node_bind_address address' Node_new"
    and "env_now e' = env_now e" and "env_hasher e' = env_hasher e"
    and "Protocol_call e (Protocol_new (get_node_id n) (node_state n))
      (Message_from_RoundOnePackage (RoundOnePackageMessage_new (get_node_id n) content)) = Done (Inr (Some b))"
    and "Protocol_call e' (Protocol_new (get_node_id n') (node_state n'))
      (Message_from_RoundOnePackage (RoundOnePackageMessage_new (get_node_id n') content')) = Done (Inr (Some b'))"
  shows "get_sender_id b = address \<and> get_sender_id b' = address'
    \<and> get_message_id b \<noteq> None \<and> get_message_id b = get_message_id b'"
  using assms
  by (auto simp: Node_bind_address_def get_node_id_def Node_new_def message_defs Protocol_new_def
      bind_outcome_Done next_id_Done Let_def)

theorem concurrent_broadcasts_share_id_witness:
  "get_message_id (BroadcastMessage (RoundOnePackage (RoundOnePackageMessage_new ''a:1'' ''x'') (Some (MessageId 10))))
   = get_message_id (BroadcastMessage (RoundOnePackage (RoundOnePackageMessage_new ''b:2'' ''y'') (Some (MessageId 10))))"
proof -
  let ?e = "\<lparr>env_now = 7, env_hasher = (\<lambda>s. of_nat (length s)), env_chan = 0\<rparr>"
  have "Protocol_call ?e (Protocol_new (get_node_id n) (node_state n))
      (Message_from_RoundOnePackage (RoundOnePackageMessage_new (get_node_id n) content))
      = Done (Inr (Some (BroadcastMessage (RoundOnePackage (RoundOnePackageMessage_new address content)
          (Some (MessageId 10))))))"
    if "n = Node_bind_address address Node_new" for n address content
    by (simp add: that Node_bind_address_def get_node_id_def Node_new_def message_defs Protocol_new_def
        next_id_def calculate_hash_def MessageIdGenerator_new_def decimal_eval Let_def)
  from concurrent_broadcasts_share_id [OF refl refl refl refl this this, OF refl refl]
  show ?thesis by blast
qed

text \<open>C14. What the node does with a peer that completes the handshake. It adds the peer to the
  membership, greets it with \<open>helo\<close>, and broadcasts a round one package under a fresh id to all
  members; these are the members after the peer was added and other tasks changed the membership
  in between. The list of members for the peer and the next connection are reached only if the
  broadcast returns: there is no timeout on it, and while it waits the node accepts nobody. The
  greeting and the list are cut off at most by their timeout; whether they are or not, the node
  goes on.\<close>

theorem accept_sequence:
  assumes "tower_law (tower_crate e)" and "open_connection e n True addr = (tr, Done h)"
    and "membership_handle (node_state n) = Running a"
    and "next_id (env_hasher (call_env e)) (env_now (call_env e)) (message_id_generator (node_state n)) = Done mid"
    and "\<forall>m. reliable_send e h m \<noteq> Panicked"
  shows "\<exists>(a2 :: MembershipActor) a3 greet list.
     hm_get (members a2) = foldl membership_apply (hm_get (members a))
         (other_commands e 0 @ Add addr h 0 # other_commands e 1)
     \<and> hm_get (members a3) = foldl membership_apply (hm_get (members a2)) (other_commands e 2)
     \<and> prefix greet [ReliableSendTo h (helo_from (get_node_id n))]
     \<and> prefix list [ReliableSendTo h (member_list_from (get_node_id n) a3)]
     \<and> (no_timeout e h \<longrightarrow> greet = [ReliableSendTo h (helo_from (get_node_id n))]
          \<and> list = [ReliableSendTo h (member_list_from (get_node_id n) a3)])
     \<and> start_accept n ((e, Inr addr) # conns) =
         (let round = tr @ AddMember addr h # greet @ [EchoBroadcastTo (round_one_from (get_node_id n) mid) (members a2)];
              rest = start_accept (n\<lparr>node_state := (node_state n)\<lparr>membership_handle := Running a3\<rparr>\<rparr>) conns
          in case echo_send e (round_one_from (get_node_id n) mid) (members a2) of
               Done _ \<Rightarrow> (round @ list @ fst rest, snd rest)
             | Blocked \<Rightarrow> (round, Blocked)
             | Panicked \<Rightarrow> (round, Panicked))"
proof -
  obtain a1 a2 a3 where views: "meanwhile e 0 (node_state n) = (node_state n)\<lparr>membership_handle := Running a1\<rparr>"
    "meanwhile e 1 ((node_state n)\<lparr>membership_handle := Running (a1\<lparr>members := hm_insert addr h (members a1)\<rparr>)\<rparr>)
      = (node_state n)\<lparr>membership_handle := Running a2\<rparr>"
    "meanwhile e 2 ((node_state n)\<lparr>membership_handle := Running a2\<rparr>)
      = (node_state n)\<lparr>membership_handle := Running a3\<rparr>"
    and members: "hm_get (members a2) = foldl membership_apply (hm_get (members a))
      (other_commands e 0 @ Add addr h 0 # other_commands e 1)"
      "hm_get (members a3) = foldl membership_apply (hm_get (members a2)) (other_commands e 2)"
    using assms(3) by (rule accept_views)
  obtain greet list where sent: "prefix greet [ReliableSendTo h (helo_from (get_node_id n))]"
    "prefix list [ReliableSendTo h (member_list_from (get_node_id n) a3)]"
    "no_timeout e h \<longrightarrow> greet = [ReliableSendTo h (helo_from (get_node_id n))]
       \<and> list = [ReliableSendTo h (member_list_from (get_node_id n) a3)]"
    and round: "start_accept n ((e, Inr addr) # conns) =
      trace_bind (tr @ AddMember addr h # greet @ [EchoBroadcastTo (round_one_from (get_node_id n) mid) (members a2)],
          echo_send e (round_one_from (get_node_id n) mid) (members a2))
        (\<lambda>_. trace_bind (list, Done ())
          (\<lambda>_. start_accept (n\<lparr>node_state := (node_state n)\<lparr>membership_handle := Running a3\<rparr>\<rparr>) conns))"
    using assms(1,2) views refl assms(4,5) by (rule accept_round)
  show ?thesis
    unfolding round
    by (rule exI [of _ a2], rule exI [of _ a3], rule exI [of _ greet], rule exI [of _ list])
      (use members sent in \<open>simp add: trace_bind_eq Let_def split: outcome.split\<close>)
qed

theorem accept_sequence_witness:
  "\<exists>tr (a2 :: MembershipActor). hm_get (members a2) = [''peer'' \<mapsto> 4]
     \<and> start_accept sample_node [(sample_accept_env\<lparr>echo_send := \<lambda>m peers. Blocked\<rparr>, Inr ''peer''),
          (sample_accept_env, Inr ''late'')] =
    (tr @ [AddMember ''peer'' 4, ReliableSendTo 4 (helo_from ''localhost:6681''),
       EchoBroadcastTo (round_one_from ''localhost:6681'' (MessageId 10)) (members a2)], Blocked)"
proof -
  let ?e = "sample_accept_env\<lparr>echo_send := \<lambda>m peers. Blocked\<rparr>"
  obtain tr where "open_connection sample_accept_env sample_node True ''peer'' = (tr, Done 4)"
    by (rule sample_accepted)
  then have opened: "open_connection ?e sample_node True ''peer'' = (tr, Done 4)"
    by (simp add: open_connection_def)
  have law: "tower_law (tower_crate ?e)" and quick: "no_timeout ?e 4"
    and ids: "next_id (env_hasher (call_env ?e)) (env_now (call_env ?e))
      (message_id_generator (node_state sample_node)) = Done (MessageId 10)"
    and sends: "\<forall>m. reliable_send ?e 4 m \<noteq> Panicked"
    using sample_accept_law sample_accept_patient sample_accept_id
    by (simp_all add: no_timeout_def sample_accept_simps)
  have view: "hm_get (members MembershipActor_start) = Map.empty" by (auto simp: MembershipActor_start_def)
  from accept_sequence [OF law opened sample_membership ids sends, of "[(sample_accept_env, Inr ''late'')]"] quick
  show ?thesis
    by (intro exI [of _ tr]) (auto simp: sample_accept_simps sample_id view simp del: start_accept.simps(3))
qed

end
