(* ===== verification/Framing.thy ===== *)
theory Framing
  imports Connection
begin

text \<open>
  \<open>build_reader_writer\<close> of \<open>src/src/node.rs\<close>: the byte stream of a connection is cut into frames by a length
  field of two bytes. The codec of \<open>tokio_util\<close> is a parameter with the law \<open>length_delimited_law\<close>; the
  loop around its decoder is the one the documentation of \<open>FramedRead\<close> describes.

  \<open>Connection\<close> and \<open>Stack\<close> speak of frames. Here the frames come from bytes: whatever part of the bytes
  has arrived, the reader yields the first of the frames that were written.
\<close>

section \<open>The codec\<close>

record codec_config =
  length_field_offset :: nat
  length_field_length :: nat
  length_adjustment :: int

text \<open>\<open>LengthDelimitedCodec::builder()\<close>.\<close>

definition codec_builder :: codec_config where
  "codec_builder = \<lparr>length_field_offset = 0, length_field_length = 4, length_adjustment = 0\<rparr>"

record length_delimited =
  ld_encode :: "codec_config \<Rightarrow> bytes \<Rightarrow> string + bytes"
  ld_decode :: "codec_config \<Rightarrow> bytes \<Rightarrow> string + (bytes \<times> bytes) option"

text \<open>The items the reader yields from the bytes that have arrived. Each frame takes at least one
  byte, so the length of the buffer bounds their number; an error ends the stream.\<close>

fun read_items :: "nat \<Rightarrow> (bytes \<Rightarrow> string + (bytes \<times> bytes) option) \<Rightarrow> bytes \<Rightarrow> (string + bytes) list" where
  "read_items 0 decode buf = []"
| "read_items (Suc k) decode buf =
     (case decode buf of
        Inl e \<Rightarrow> [Inl e]
      | Inr None \<Rightarrow> []
      | Inr (Some (f, rest)) \<Rightarrow> Inr f # read_items k decode rest)"

definition new_read :: "length_delimited \<Rightarrow> codec_config \<Rightarrow> bytes \<Rightarrow> (string + bytes) list" where
  "new_read ld cfg buf = read_items (Suc (length buf)) (ld_decode ld cfg) buf"

definition new_write :: "length_delimited \<Rightarrow> codec_config \<Rightarrow> bytes \<Rightarrow> string + bytes" where
  "new_write ld cfg f = ld_encode ld cfg f"

definition build_reader_writer ::
  "length_delimited \<Rightarrow> (bytes \<Rightarrow> (string + bytes) list) \<times> (bytes \<Rightarrow> string + bytes)" where
  "build_reader_writer ld =
     (let framed_reader = new_read ld (codec_builder\<lparr>length_field_offset := 0, length_field_length := 2,
            length_adjustment := 0\<rparr>);
          framed_writer = new_write ld (codec_builder\<lparr>length_field_offset := 0, length_field_length := 2,
            length_adjustment := 0\<rparr>)
      in (framed_reader, framed_writer))"

text \<open>What the code relies on, for a length field at the start and no adjustment: a frame whose
  length fits into the field, and is below the default limit of 8 MiB, is encoded as a header of
  that size and the frame; the decoder returns it with the bytes that follow, and asks for more
  while it is incomplete.\<close>

definition length_delimited_law :: "length_delimited \<Rightarrow> bool" where
  "length_delimited_law ld \<longleftrightarrow> (\<forall>cfg f. length_field_offset cfg = 0 \<and> length_adjustment cfg = 0
     \<and> 0 < length_field_length cfg \<and> length f < 256 ^ length_field_length cfg \<and> length f \<le> 8388608 \<longrightarrow>
     (\<exists>h. length h = length_field_length cfg \<and> ld_encode ld cfg f = Inr (h @ f)
        \<and> (\<forall>rest. ld_decode ld cfg (h @ f @ rest) = Inr (Some (f, rest)))
        \<and> (\<forall>b. strict_prefix b (h @ f) \<longrightarrow> ld_decode ld cfg b = Inr None)))"

section \<open>Bytes and frames\<close>

text \<open>The bytes on the wire after these frames were sent, if the writer accepts them all.\<close>

definition wire_bytes :: "(bytes \<Rightarrow> string + bytes) \<Rightarrow> bytes list \<Rightarrow> bytes" where
  "wire_bytes writer fs = concat (map (\<lambda>f. case writer f of Inr b \<Rightarrow> b | Inl e \<Rightarrow> []) fs)"

definition two_byte_config :: codec_config where
  "two_byte_config = \<lparr>length_field_offset = 0, length_field_length = 2, length_adjustment = 0\<rparr>"

lemma build_reader_writer_eq:
  "build_reader_writer ld = (new_read ld two_byte_config, new_write ld two_byte_config)"
  by (simp add: build_reader_writer_def codec_builder_def two_byte_config_def)

text \<open>How the decoder treats one frame.\<close>

definition decodes :: "length_delimited \<Rightarrow> bytes \<Rightarrow> bytes \<Rightarrow> bool" where
  "decodes ld e f \<longleftrightarrow> new_write ld two_byte_config f = Inr e \<and> e \<noteq> []
     \<and> (\<forall>rest. ld_decode ld two_byte_config (e @ rest) = Inr (Some (f, rest)))
     \<and> (\<forall>b. strict_prefix b e \<longrightarrow> ld_decode ld two_byte_config b = Inr None)"

lemma two_byte_frame:
  assumes "length_delimited_law ld" and "length f \<le> 65535"
  obtains e where "decodes ld e f"
proof -
  let ?cfg = two_byte_config
  have "length_field_offset ?cfg = 0 \<and> length_adjustment ?cfg = 0 \<and> 0 < length_field_length ?cfg
      \<and> length f < 256 ^ length_field_length ?cfg \<and> length f \<le> 8388608"
    using assms(2) by (simp add: two_byte_config_def)
  with assms(1) obtain h where h: "length h = length_field_length ?cfg" "ld_encode ld ?cfg f = Inr (h @ f)"
    "\<forall>rest. ld_decode ld ?cfg (h @ f @ rest) = Inr (Some (f, rest))"
    "\<forall>b. strict_prefix b (h @ f) \<longrightarrow> ld_decode ld ?cfg b = Inr None"
    unfolding length_delimited_law_def by blast
  from h(1) have "h @ f \<noteq> []" by (auto simp: two_byte_config_def)
  with h(2-4) show ?thesis by (intro that [of "h @ f"]) (simp add: decodes_def new_write_def)
qed

lemma read_items_part:
  "decodes ld e f \<Longrightarrow> strict_prefix b e \<Longrightarrow> read_items k (ld_decode ld two_byte_config) b = []"
  by (cases k) (auto simp: decodes_def)

lemma read_items_whole:
  "decodes ld e f \<Longrightarrow> read_items (Suc k) (ld_decode ld two_byte_config) (e @ rest)
     = Inr f # read_items k (ld_decode ld two_byte_config) rest"
  by (simp add: decodes_def)

lemma read_items_wire:
  assumes "length_delimited_law ld" and "\<forall>f \<in> set fs. length f \<le> 65535"
    and "prefix b (wire_bytes (new_write ld two_byte_config) fs)" and "length b < k"
  shows "\<exists>j. read_items k (ld_decode ld two_byte_config) b = map Inr (take j fs)
     \<and> (b = wire_bytes (new_write ld two_byte_config) fs \<longrightarrow> j = length fs)"
  using assms(2-)
proof (induction fs arbitrary: b k)
  case Nil
  obtain e where e: "decodes ld e []" using two_byte_frame [OF assms(1), of "[]"] by auto
  from Nil(2) have "b = []" by (simp add: wire_bytes_def)
  with e read_items_part [OF e, of b k] show ?case by (auto simp: decodes_def strict_prefix_def)
next
  case (Cons f fs)
  let ?wire = "wire_bytes (new_write ld two_byte_config)"
  from Cons.prems(1) obtain e where e: "decodes ld e f" using two_byte_frame [OF assms(1), of f] by auto
  then have wire: "?wire (f # fs) = e @ ?wire fs" by (simp add: wire_bytes_def decodes_def)
  show ?case
  proof (cases "strict_prefix b e")
    case True
    then have "b \<noteq> ?wire (f # fs)" using wire by (auto simp: strict_prefix_def prefix_def)
    with read_items_part [OF e True] show ?thesis by (intro exI [of _ 0]) simp
  next
    case False
    with Cons.prems(2) wire obtain rest where b: "b = e @ rest" "prefix rest (?wire fs)"
      by (auto simp: prefix_append strict_prefix_def)
    obtain k' where k: "k = Suc k'" using Cons.prems(3) by (cases k) auto
    have "length rest < k'" using Cons.prems(3) e by (cases e) (auto simp: b(1) k decodes_def)
    from Cons.IH [OF _ b(2) this] Cons.prems(1) obtain j
      where "read_items k' (ld_decode ld two_byte_config) rest = map Inr (take j fs)"
        "rest = ?wire fs \<longrightarrow> j = length fs" by auto
    with wire show ?thesis
      by (intro exI [of _ "Suc j"]) (simp add: k b(1) read_items_whole [OF e] del: read_items.simps)
  qed
qed

lemma produces_small:
  "produces (NoiseHandler_io c) s q \<Longrightarrow> \<forall>f \<in> set (map snd q). length f \<le> 65535"
proof (induction rule: produces.induct)
  case (produces_write s m b s' q)
  then have "length b \<le> 65535" using frames_fit_length_field [of c s m b s'] by simp
  with produces_write.IH show ?case by simp
qed simp_all

section \<open>A concrete codec\<close>

definition big_endian :: "nat \<Rightarrow> nat \<Rightarrow> bytes" where
  "big_endian l n = map (\<lambda>i. of_nat (n div 256 ^ i)) (rev [0..<l])"

definition from_big_endian :: "bytes \<Rightarrow> nat" where
  "from_big_endian = foldl (\<lambda>a b. a * 256 + unat b) 0"

definition big_endian_codec :: length_delimited where
  "big_endian_codec =
     \<lparr>ld_encode = (\<lambda>cfg f. if length f < 256 ^ length_field_length cfg \<and> length f \<le> 8388608
        then Inr (big_endian (length_field_length cfg) (length f) @ f) else Inl ''frame size too big''),
      ld_decode = (\<lambda>cfg b. let l = length_field_length cfg; n = from_big_endian (take l b) in
        if length b < l then Inr None
        else if 8388608 < n then Inl ''frame size too big''
        else if length b < l + n then Inr None
        else Inr (Some (take n (drop l b), drop (l + n) b)))\<rparr>"

lemma length_big_endian [simp]: "length (big_endian l n) = l"
  by (simp add: big_endian_def)

lemma foldl_big_endian:
  "foldl (\<lambda>a b. a * 256 + unat b) a (big_endian l n) = a * 256 ^ l + n mod 256 ^ l"
proof (induction l arbitrary: a)
  case 0
  show ?case by (simp add: big_endian_def)
next
  case (Suc l)
  have "unat (of_nat (n div 256 ^ l) :: byte) = n div 256 ^ l mod 256" by (simp add: unat_of_nat)
  moreover have "n mod 256 ^ Suc l = 256 ^ l * (n div 256 ^ l mod 256) + n mod 256 ^ l"
    by (metis mod_mult2_eq mult.commute power_Suc)
  moreover have "big_endian (Suc l) n = of_nat (n div 256 ^ l) # big_endian l n" by (simp add: big_endian_def)
  ultimately show ?case
    using Suc.IH [of "a * 256 + n div 256 ^ l mod 256"] by (simp add: distrib_right)
qed

lemma from_big_endian [simp]: "n < 256 ^ l \<Longrightarrow> from_big_endian (big_endian l n) = n"
  by (simp add: from_big_endian_def foldl_big_endian)

lemma big_endian_codec_law: "length_delimited_law big_endian_codec"
  unfolding length_delimited_law_def
proof (intro allI impI, elim conjE)
  fix cfg :: codec_config and f :: bytes
  assume f: "length f < 256 ^ length_field_length cfg" "length f \<le> 8388608"
  let ?l = "length_field_length cfg"
  let ?h = "big_endian ?l (length f)"
  have "ld_decode big_endian_codec cfg b = Inr None" if b: "strict_prefix b (?h @ f)" for b
  proof (cases "length b < ?l")
    case False
    from b obtain us where us: "?h @ f = b @ us" "us \<noteq> []" by (auto simp: strict_prefix_def prefix_def)
    have "take ?l (?h @ f) = ?h" by simp
    with us(1) False have "take ?l b = ?h" by simp
    moreover have "length b < ?l + length f"
      using arg_cong [OF us(1), of length] us(2) by (cases us) simp_all
    ultimately show ?thesis using f False by (simp add: big_endian_codec_def)
  qed (simp add: big_endian_codec_def)
  with f show "\<exists>h. length h = ?l \<and> ld_encode big_endian_codec cfg f = Inr (h @ f)
      \<and> (\<forall>rest. ld_decode big_endian_codec cfg (h @ f @ rest) = Inr (Some (f, rest)))
      \<and> (\<forall>b. strict_prefix b (h @ f) \<longrightarrow> ld_decode big_endian_codec cfg b = Inr None)"
    by (intro exI [of _ ?h]) (auto simp: big_endian_codec_def)
qed

section \<open>Properties\<close>

text \<open>C8. From bytes to messages: a connection writes its frames through the framed writer, which accepts
  all of them, and however many of the bytes have arrived at the other end, the framed reader
  there yields a prefix of the frames and no error; all of them once all bytes are there. So the
  connection at that end forwards a prefix of the messages that were given to the first one.\<close>

theorem byte_stream_is_channel:
  assumes "length_delimited_law ld" and "build_reader_writer ld = (reader, writer)"
    and "flex_roundtrip fb" and "handlers_paired c sh rh (conn_noise a) (conn_noise b)"
    and "run_connection_actor (NoiseHandler_io c) fb (Running (Serving a)) evs = (es, t)"
    and "run_connection_actor (NoiseHandler_io c) fb (Running (Serving b)) evs' = (es', t')"
    and "prefix arrived (wire_bytes writer (frames_written es))"
    and "prefix (map Inr (frames_read evs')) (reader arrived)"
  shows "(\<forall>f \<in> set (frames_written es). is_ok (writer f)) \<and> (\<forall>item \<in> set (reader arrived). is_ok item)
     \<and> (arrived = wire_bytes writer (frames_written es) \<longrightarrow> reader arrived = map Inr (frames_written es))
     \<and> prefix (forwarded es') (commands evs)"
proof -
  from assms(2) have rw: "reader = new_read ld two_byte_config" "writer = new_write ld two_byte_config"
    by (simp_all add: build_reader_writer_eq)
  from connection_produces [OF assms(5)] have small: "\<forall>f \<in> set (frames_written es). length f \<le> 65535"
    by (metis produces_small)
  have accepts: "\<forall>f \<in> set (frames_written es). is_ok (writer f)"
    using small two_byte_frame [OF assms(1)] by (metis decodes_def is_ok_simps(1) rw(2))
  obtain j where j: "reader arrived = map Inr (take j (frames_written es))"
    and all: "arrived = wire_bytes writer (frames_written es) \<longrightarrow> j = length (frames_written es)"
    using read_items_wire [OF assms(1) small assms(7) [unfolded rw(2)] lessI] by (auto simp: rw new_read_def)
  from assms(8) j have "prefix (map (\<lambda>x. Inr x :: string + bytes) (frames_read evs')) (map Inr (take j (frames_written es)))"
    by simp
  then have "prefix (frames_read evs') (take j (frames_written es))"
    by (metis inj_Inr inj_map_eq_map map_eq_append_conv prefix_def)
  then have "prefix (frames_read evs') (frames_written es)"
    by (meson prefix_order.trans take_is_prefix)
  with paired_connections_deliver [OF assms(3-6)] j all accepts show ?thesis by auto
qed

theorem byte_stream_is_channel_witness:
  "\<exists>reader writer es t es' t'.
     build_reader_writer big_endian_codec = (reader, writer)
     \<and> run_connection_actor (NoiseHandler_io counting_crates) ack_codec
       (Running (Serving \<lparr>conn_noise = \<lparr>handshake_state = None, transport_state = Some (0, 0), noise_initiator = True\<rparr>\<rparr>))
       [FromHandle (ConnSend (Ack 1) 7) (Some (Inr ())), FromHandle (ConnSend (Ack 2) 8) (Some (Inr ()))] = (es, t)
     \<and> run_connection_actor (NoiseHandler_io counting_crates) ack_codec
       (Running (Serving \<lparr>conn_noise = \<lparr>handshake_state = None, transport_state = Some (0, 0), noise_initiator = False\<rparr>\<rparr>))
       [FromReader (Some (Inr (1 # tag 0))) (Some True)] = (es', t')
     \<and> reader (wire_bytes writer (frames_written es)) = [Inr (1 # tag 0), Inr (2 # tag 1)]
     \<and> prefix (forwarded es') [Ack 1, Ack 2]"
proof -
  let ?n = "\<lambda>init. \<lparr>handshake_state = None, transport_state = Some (0, 0), noise_initiator = init\<rparr>
      :: (nat, nat \<times> nat) NoiseHandler"
    and ?evs = "[FromHandle (ConnSend (Ack 1) 7) (Some (Inr ())), FromHandle (ConnSend (Ack 2) 8) (Some (Inr ()))]"
    and ?evs' = "[FromReader (Some (Inr (1 # tag 0))) (Some True)]"
    and ?reader = "new_read big_endian_codec two_byte_config" and ?writer = "new_write big_endian_codec two_byte_config"
  obtain es t where runA: "run_connection_actor (NoiseHandler_io counting_crates) ack_codec
      (Running (Serving \<lparr>conn_noise = ?n True\<rparr>)) ?evs = (es, t)" by force
  obtain es' t' where runB: "run_connection_actor (NoiseHandler_io counting_crates) ack_codec
      (Running (Serving \<lparr>conn_noise = ?n False\<rparr>)) ?evs' = (es', t')" by force
  from runA have frames: "frames_written es = [1 # tag 0, 2 # tag 1]"
    by (auto simp: run_connection_actor_def handle_send_def as_bytes_def ack_codec_def
        NoiseHandler_build_transport_message_def counting_buffers emit_def untraced_def)
  have "?reader (wire_bytes ?writer (frames_written es)) = map Inr (frames_written es)"
    using read_items_wire [OF big_endian_codec_law _ prefix_order.refl lessI, of "frames_written es"]
    by (auto simp: frames new_read_def)
  moreover have "handlers_paired counting_crates fst snd (?n True) (?n False)"
    by (simp add: handlers_paired_def counting_transport)
  ultimately have "?reader (wire_bytes ?writer (frames_written es)) = map Inr (frames_written es)
      \<and> prefix (forwarded es') (commands ?evs)"
    using byte_stream_is_channel [where sh = fst and rh = snd, OF big_endian_codec_law build_reader_writer_eq
        ack_codec_roundtrip _ runA runB prefix_order.refl] by (simp add: frames)
  with runA runB frames build_reader_writer_eq show ?thesis by auto
qed

end
