(* ===== verification/ReliableLink.thy ===== *)
theory ReliableLink
  imports ReliableSender
begin

text \<open>
  Two reliable senders joined by a connection. The state of the system is the pair of their
  event histories; each endpoint is the actor of \<open>ReliableSender\<close> run on its history. The rules
  of \<open>link\<close> let either side take a command from its client at any time, go round its loop, or
  receive anything the other side has put on the wire so far. So the network may delay,
  reorder, lose and repeat messages, but does not invent any: authentication is the business of
  the Noise channel below.

  An endpoint whose handler never returns stays stuck: later events of its history are then the
  content of its queues.

  The result is the promise of the component, end to end: a caller that gets \<open>Ok\<close> knows that
  the peer's actor received its message, and what became of it there.
\<close>

section \<open>The system\<close>

definition on_wire :: "rs_event list \<Rightarrow> ReliableNetworkMessage set" where
  "on_wire evs = {x. Out (ToConnection x) \<in> set (rs_log evs)}"

inductive link :: "rs_event list \<Rightarrow> rs_event list \<Rightarrow> bool" where
  link_start: "link [] []"
| client_left: "link l r \<Longrightarrow> link (l @ [FromClient cmd e]) r"
| client_right: "link l r \<Longrightarrow> link l (r @ [FromClient cmd e])"
| recv_left: "link l r \<Longrightarrow> x \<in> on_wire r \<Longrightarrow> link (l @ [FromConnection x e]) r"
| recv_right: "link l r \<Longrightarrow> x \<in> on_wire l \<Longrightarrow> link l (r @ [FromConnection x e])"
| idle_left: "link l r \<Longrightarrow> link (l @ [BothClosed]) r"
| idle_right: "link l r \<Longrightarrow> link l (r @ [BothClosed])"

section \<open>Everything received was sent\<close>

lemma on_wire_append: "x \<in> on_wire evs \<Longrightarrow> x \<in> on_wire (evs @ evs')"
  using rs_log_append [of evs evs'] by (auto simp: on_wire_def)

lemma link_received:
  assumes "link l r"
  shows "(FromConnection x e \<in> set l \<longrightarrow> x \<in> on_wire r)
       \<and> (FromConnection x e \<in> set r \<longrightarrow> x \<in> on_wire l)"
  using assms by (induction rule: link.induct) (auto intro: on_wire_append)

lemmas received_left = link_received [THEN conjunct1, rule_format]
lemmas received_right = link_received [THEN conjunct2, rule_format]

lemma on_wire_Send:
  assumes "Send m n \<in> on_wire evs" and "length (requests evs) < 2 ^ 64"
  obtains ch where "numbered (requests evs) n (m, ch)"
  using assms rs_log_sends [of m n evs] unfolding on_wire_def by blast

text \<open>What has become of a message that was acknowledged: it was handed to the client, the client
  had closed its channel, or the task is still waiting in its handler.\<close>

definition passed_on :: "rs_event list \<Rightarrow> Message \<Rightarrow> u64 \<Rightarrow> rs_env \<Rightarrow> bool" where
  "passed_on evs m n e \<longleftrightarrow> Out (ToClient m) \<in> set (rs_log evs)
     \<or> conn_ok e = Some True \<and> client_ok e = Some False
     \<or> waits_at evs (FromConnection (Send m n) e)"

lemma on_wire_Ack:
  assumes "Ack n \<in> on_wire evs"
  obtains m e where "FromConnection (Send m n) e \<in> set evs" and "conn_ok e \<noteq> Some False" and "passed_on evs m n e"
proof -
  from assms have "Out (ToConnection (Ack n)) \<in> set (rs_log evs)" by (simp add: on_wire_def)
  then show ?thesis using that unfolding passed_on_def by (rule rs_log_acks)
qed

text \<open>An acknowledgement was sent by a peer that had received the message with this number.\<close>

lemma link_ack_delivered:
  assumes "link l r" and "length (requests l) < 2 ^ 64" and "FromConnection (Ack n) e1 \<in> set l"
  obtains m ch e where "numbered (requests l) n (m, ch)" and "FromConnection (Send m n) e \<in> set r"
    and "conn_ok e \<noteq> Some False" and "passed_on r m n e"
proof -
  from received_left [OF assms(1,3)] obtain m e where got: "FromConnection (Send m n) e \<in> set r"
    and ok: "conn_ok e \<noteq> Some False" "passed_on r m n e"
    by (rule on_wire_Ack)
  from received_right [OF assms(1) got] assms(2) obtain ch where "numbered (requests l) n (m, ch)"
    by (rule on_wire_Send)
  with that got ok show ?thesis by blast
qed

text \<open>A caller that is answered \<open>Ok\<close> was acknowledged.\<close>

lemma ok_was_acked:
  assumes "length (requests l) < 2 ^ 64"
    and "ReliableSenderHandle_send True (oneshot_await (rs_log l) ch) = Done (Inr ())"
  obtains n m e where "FromConnection (Ack n) e \<in> set l" and "numbered (requests l) n (m, ch)"
proof -
  from assms(2) obtain v where "oneshot_await (rs_log l) ch = Some (Inr v)"
    by (auto simp: ReliableSenderHandle_send_def split: option.splits sum.splits)
  then have "Reply ch v \<in> set (rs_log l)" by (rule oneshot_await_Reply)
  from this assms(1) obtain before n e after m where "l = before @ FromConnection (Ack n) e # after"
    and "numbered (requests before) n (m, ch)" by (rule rs_log_replies)
  with that [of n e m] numbered_append show ?thesis by simp
qed

section \<open>Properties\<close>

text \<open>C7. If \<open>send\<close> returns \<open>Ok\<close> to a caller, then the message this caller submitted was received by the
  actor at the other end, which acknowledged it. After that the actor handed the message to its
  client; or the client had closed its channel; or the actor is still waiting, for ever, in the
  handler of this very message, since it acknowledges before it hands over. This holds for every
  interleaving of the two endpoints and although the network may reorder, lose and duplicate, as
  long as the sender has not used up its 64-bit sequence numbers.\<close>

theorem send_ok_means_delivered:
  assumes "link l r" and "length (requests l) < 2 ^ 64"
    and "ReliableSenderHandle_send True (oneshot_await (rs_log l) ch) = Done (Inr ())"
  shows "\<exists>m n e. (m, ch) \<in> set (requests l)
     \<and> FromConnection (Send m n) e \<in> set r \<and> conn_ok e \<noteq> Some False
     \<and> (Out (ToClient m) \<in> set (rs_log r)
        \<or> conn_ok e = Some True \<and> client_ok e = Some False
        \<or> waits_at r (FromConnection (Send m n) e))"
proof -
  from assms(2,3) obtain n m e1 where "FromConnection (Ack n) e1 \<in> set l"
    and req: "numbered (requests l) n (m, ch)" by (rule ok_was_acked)
  from assms(1,2) this(1) obtain m' ch' e where "numbered (requests l) n (m', ch')"
    and got: "FromConnection (Send m' n) e \<in> set r" "conn_ok e \<noteq> Some False" "passed_on r m' n e"
    by (rule link_ack_delivered)
  with req have "m' = m" by (auto dest: numbered_unique)
  with req got show ?thesis unfolding passed_on_def by (blast dest: numbered_in)
qed

theorem send_ok_means_delivered_witness:
  "\<exists>m n e. (m, 7) \<in> set (requests [FromClient (ClientSend (Message_from_Ping PingMessage_default) 7) all_ok, FromConnection (Ack 1) all_ok])
     \<and> FromConnection (Send m n) e \<in> set [FromConnection (Send (Message_from_Ping PingMessage_default) 1) all_ok]
     \<and> Out (ToClient m) \<in> set (rs_log [FromConnection (Send (Message_from_Ping PingMessage_default) 1) all_ok])"
proof -
  let ?m = "Message_from_Ping PingMessage_default"
  let ?l = "[FromClient (ClientSend ?m 7) all_ok, FromConnection (Ack 1) all_ok]"
    and ?r = "[FromConnection (Send ?m 1) all_ok]"
  have eval: "Send ?m 1 \<in> on_wire [FromClient (ClientSend ?m 7) all_ok]" "Ack 1 \<in> on_wire ?r"
    by (simp_all add: on_wire_def rs_log_def rs_eval)
  have "link [FromClient (ClientSend ?m 7) all_ok] []"
    using link.client_left [OF link.link_start] by simp
  from link.recv_right [OF this eval(1)] have "link [FromClient (ClientSend ?m 7) all_ok] ?r" by simp
  from link.recv_left [OF this eval(2)] have link: "link ?l ?r" by simp
  have ok: "ReliableSenderHandle_send True (oneshot_await (rs_log ?l) 7) = Done (Inr ())"
    by (simp add: rs_log_def rs_eval ReliableSenderHandle_send_def)
  have "\<not> waits_at ?r ev" for ev
    by (auto simp: waits_at_def Cons_eq_append_conv rs_task_def rs_eval)
  with send_ok_means_delivered [OF link _ ok] show ?thesis by auto
qed

text \<open>C11. The client of an endpoint is only handed messages that the client at the other end
  submitted.\<close>

theorem delivered_was_submitted:
  assumes "link l r" and "length (requests l) < 2 ^ 64" and "Out (ToClient m) \<in> set (rs_log r)"
  shows "\<exists>ch. (m, ch) \<in> set (requests l)"
proof -
  obtain n e where "FromConnection (Send m n) e \<in> set r"
    using rs_log_client [OF assms(3)] by blast
  from received_right [OF assms(1) this] assms(2) obtain ch where "numbered (requests l) n (m, ch)"
    by (rule on_wire_Send)
  then show ?thesis by (blast dest: numbered_in)
qed

theorem delivered_was_submitted_witness:
  "\<exists>ch. (Message_from_Ping PingMessage_default, ch) \<in> set (requests
     [FromClient (ClientSend (Message_from_Ping PingMessage_default) 7) all_ok])"
proof -
  let ?m = "Message_from_Ping PingMessage_default"
  let ?l = "[FromClient (ClientSend ?m 7) all_ok]" and ?r = "[FromConnection (Send ?m 1) all_ok]"
  have "link ?l []"
    using link.client_left [OF link.link_start] by simp
  moreover have "Send ?m 1 \<in> on_wire ?l" by (simp add: on_wire_def rs_log_def rs_eval)
  ultimately have "link ?l ?r" using link.recv_right [of ?l "[]"] by simp
  moreover have "Out (ToClient ?m) \<in> set (rs_log ?r)" by (simp add: rs_log_def rs_eval)
  ultimately show ?thesis using delivered_was_submitted [of ?l ?r ?m] by simp
qed

end
