(* ===== verification/Stack.thy ===== *)
theory Stack
  imports Connection ReliableLink
begin

text \<open>
  Two nodes' ends of one connection, each a reliable sender on top of a connection actor, joined
  by a byte stream that keeps the order of frames. Where \<open>ReliableLink\<close> leaves the network open,
  here it is the Noise connection of \<open>Connection\<close>, and the two tasks of an end run concurrently.

  The handlers of the reliable sender await \<open>connection_handle.send\<close>. So its work on an event is split:
  it takes the event and hands a command to the connection (\<open>submit\<close>, \<open>take_send\<close>), the connection
  serves the command (\<open>serve\<close>), and the sender finishes the event once its channel is answered
  (\<open>resume\<close>); in the meantime it takes nothing else. For a message from the peer \<open>resume\<close> includes
  that the client's channel has taken it or is closed: while it is full the sender keeps waiting,
  and if the client takes nothing it waits for ever. The connection in turn takes a frame (\<open>read\<close>)
  and hands its message to the subscriber (\<open>forward\<close>), for which the bounded queue between the two
  must have room; until then it serves no command. A frame can be read once its write has
  succeeded: a write that fails or hangs leaves an incomplete frame behind.

  The system refines \<open>ReliableLink\<close>, so what a caller is told there holds on the real channel; on
  top of that messages arrive in order and once; and the two tasks of an end can deadlock.
\<close>

section \<open>One end\<close>

text \<open>\<open>ConnectionHandle::start\<close> makes the channel to the subscriber with this capacity.\<close>

definition subscription_capacity :: nat where
  "subscription_capacity = 32"

text \<open>What the reliable sender is waiting for: the answer to its command on the last channel.\<close>

datatype rs_wait = Submitting Message chan chan | Acking Message u64 chan

record endpoint =
  ep_sender :: "rs_event list"
  ep_waits :: "rs_wait option"
  ep_conn :: "conn_event list"
  ep_reading :: "bytes option"

definition endpoint_new :: endpoint where
  "endpoint_new = \<lparr>ep_sender = [], ep_waits = None, ep_conn = [], ep_reading = None\<rparr>"

definition rs_actor :: "rs_event list \<Rightarrow> ReliableSenderActor" where
  "rs_actor evs = (case rs_task evs of Running a \<Rightarrow> a | _ \<Rightarrow> ReliableSenderActor_new)"

fun wait_chan :: "rs_wait \<Rightarrow> chan" where
  "wait_chan (Submitting m ch c) = c"
| "wait_chan (Acking m n c) = c"

text \<open>The command given to \<open>connection_handle.send\<close>, and the event once the sender goes on.\<close>

fun wait_request :: "ReliableSenderActor \<Rightarrow> rs_wait \<Rightarrow> ReliableNetworkMessage" where
  "wait_request a (Submitting m ch c) = Send m (fst (next_sequence_number a))"
| "wait_request a (Acking m n c) = Ack n"

fun wait_event :: "rs_wait \<Rightarrow> rs_env \<Rightarrow> rs_event" where
  "wait_event (Submitting m ch c) e = FromClient (ClientSend m ch) e"
| "wait_event (Acking m n c) e = FromConnection (Send m n) e"

definition conn_log :: "'n NoiseIO \<Rightarrow> flexbuffers \<Rightarrow> 'n ConnectionActor \<Rightarrow> endpoint \<Rightarrow> conn_effect list" where
  "conn_log io fb a P = fst (run_connection_actor io fb (Running (Serving a)) (ep_conn P))"

definition conn_task :: "'n NoiseIO \<Rightarrow> flexbuffers \<Rightarrow> 'n ConnectionActor \<Rightarrow> endpoint \<Rightarrow> 'n conn_state task" where
  "conn_task io fb a P = snd (run_connection_actor io fb (Running (Serving a)) (ep_conn P))"

definition conn_chans :: "endpoint \<Rightarrow> chan list" where
  "conn_chans P = concat (map conn_tx (ep_conn P))"

text \<open>The messages the sender has taken from the connection, and those still in the queue.\<close>

fun from_peer :: "rs_event \<Rightarrow> ReliableNetworkMessage option" where
  "from_peer (FromConnection x e) = Some x"
| "from_peer ev = None"

definition taken :: "endpoint \<Rightarrow> ReliableNetworkMessage list" where
  "taken P = List.map_filter from_peer (ep_sender P)
     @ (case ep_waits P of Some (Acking m n c) \<Rightarrow> [Send m n] | _ \<Rightarrow> [])"

definition queued :: "'n NoiseIO \<Rightarrow> flexbuffers \<Rightarrow> 'n ConnectionActor \<Rightarrow> endpoint \<Rightarrow> ReliableNetworkMessage list" where
  "queued io fb a P = drop (length (taken P)) (forwarded (conn_log io fb a P))"

text \<open>A step of one end; \<open>fs\<close> are the frames the other end has written so far.\<close>

inductive endpoint_step ::
  "'n NoiseIO \<Rightarrow> flexbuffers \<Rightarrow> 'n ConnectionActor \<Rightarrow> bytes list \<Rightarrow> endpoint \<Rightarrow> endpoint \<Rightarrow> bool"
  for io fb a fs P where
  submit: "ep_waits P = None \<Longrightarrow> c \<notin> set (conn_chans P) \<Longrightarrow>
    endpoint_step io fb a fs P (P\<lparr>ep_waits := Some (Submitting m ch c)\<rparr>)"
| take_send: "ep_waits P = None \<Longrightarrow> queued io fb a P = Send m n # q \<Longrightarrow> c \<notin> set (conn_chans P) \<Longrightarrow>
    endpoint_step io fb a fs P (P\<lparr>ep_waits := Some (Acking m n c)\<rparr>)"
| take_ack: "ep_waits P = None \<Longrightarrow> queued io fb a P = Ack n # q \<Longrightarrow>
    endpoint_step io fb a fs P (P\<lparr>ep_sender := ep_sender P @ [FromConnection (Ack n) e]\<rparr>)"
| idle: "ep_waits P = None \<Longrightarrow>
    endpoint_step io fb a fs P (P\<lparr>ep_sender := ep_sender P @ [BothClosed]\<rparr>)"
| serve: "ep_waits P = Some w \<Longrightarrow> wait_chan w \<notin> set (conn_chans P) \<Longrightarrow> ep_reading P = None \<Longrightarrow>
    endpoint_step io fb a fs P (P\<lparr>ep_conn := ep_conn P
      @ [FromHandle (ConnSend (wait_request (rs_actor (ep_sender P)) w) (wait_chan w)) written]\<rparr>)"
| resume: "ep_waits P = Some w \<Longrightarrow>
    ConnectionHandle_send (oneshot_await (conn_log io fb a P) (wait_chan w)) = Done r \<Longrightarrow>
    endpoint_step io fb a fs P (P\<lparr>ep_waits := None,
      ep_sender := ep_sender P @ [wait_event w \<lparr>conn_ok = Some (is_ok r), client_ok = Some taken_by_client\<rparr>]\<rparr>)"
| read: "ep_reading P = None \<Longrightarrow> conn_task io fb a P = Running (Serving s) \<Longrightarrow>
    prefix (frames_read (ep_conn P) @ [f]) fs \<Longrightarrow>
    endpoint_step io fb a fs P (P\<lparr>ep_reading := Some f\<rparr>)"
| forward: "ep_reading P = Some f \<Longrightarrow> length (queued io fb a P) < subscription_capacity \<Longrightarrow>
    endpoint_step io fb a fs P (P\<lparr>ep_reading := None,
      ep_conn := ep_conn P @ [FromReader (Some (Inr f)) (Some True)]\<rparr>)"
| closed: "ep_reading P = None \<Longrightarrow> item = None \<or> item = Some (Inl err) \<Longrightarrow>
    endpoint_step io fb a fs P (P\<lparr>ep_conn := ep_conn P @ [FromReader item (Some True)]\<rparr>)"

section \<open>Both ends\<close>

inductive stack ::
  "'n NoiseIO \<Rightarrow> flexbuffers \<Rightarrow> 'n ConnectionActor \<Rightarrow> 'n ConnectionActor \<Rightarrow> endpoint \<Rightarrow> endpoint \<Rightarrow> bool"
  for io fb a b where
  stack_start: "stack io fb a b endpoint_new endpoint_new"
| step_left: "stack io fb a b P Q \<Longrightarrow>
    endpoint_step io fb a (frames_flushed (conn_log io fb b Q)) P P' \<Longrightarrow> stack io fb a b P' Q"
| step_right: "stack io fb a b P Q \<Longrightarrow>
    endpoint_step io fb b (frames_flushed (conn_log io fb a P)) Q Q' \<Longrightarrow> stack io fb a b P Q'"

lemma stack_sym: "stack io fb a b P Q \<Longrightarrow> stack io fb b a Q P"
  by (induction rule: stack.induct) (auto intro: stack.intros)

section \<open>The log of a connection\<close>

lemma conn_log_run:
  "run_connection_actor io fb (Running (Serving a)) (ep_conn P) = (conn_log io fb a P, conn_task io fb a P)"
  by (simp add: conn_log_def conn_task_def)

lemma conn_log_simps [simp]:
  "conn_log io fb a (P\<lparr>ep_sender := x\<rparr>) = conn_log io fb a P"
  "conn_log io fb a (P\<lparr>ep_waits := y\<rparr>) = conn_log io fb a P"
  "conn_log io fb a (P\<lparr>ep_reading := z\<rparr>) = conn_log io fb a P"
  "conn_chans (P\<lparr>ep_sender := x\<rparr>) = conn_chans P"
  "conn_chans (P\<lparr>ep_waits := y\<rparr>) = conn_chans P"
  "conn_chans (P\<lparr>ep_reading := z\<rparr>) = conn_chans P"
  "conn_chans (P\<lparr>ep_conn := ep_conn P @ [ev]\<rparr>) = conn_chans P @ conn_tx ev"
  "taken (P\<lparr>ep_conn := evs\<rparr>) = taken P"
  "taken (P\<lparr>ep_reading := z\<rparr>) = taken P"
  by (simp_all add: conn_log_def conn_chans_def taken_def)

lemma run_connection_one_reply:
  assumes "run_connection_actor io fb t [ev] = (es, t')" and "Reply ch v \<in> set es"
  shows "ch \<in> set (conn_tx ev)"
proof (cases t)
  case (Running s)
  obtain es1 r where step: "connection_step io fb s ev = (es1, r)" by force
  have "Reply ch v \<in> set es1"
    using assms step Running by (cases r) (auto simp: run_connection_actor_def)
  then have "ch \<in># consumed es1" by (rule Reply_consumed)
  with step connection_step_conserve [of io fb s ev es1] connection_step_unfinished [OF step]
  show ?thesis by (cases r) auto
qed (use assms in \<open>auto simp: run_connection_actor_def\<close>)

lemma conn_log_snoc:
  obtains es where "conn_log io fb a (P\<lparr>ep_conn := ep_conn P @ [ev]\<rparr>) = conn_log io fb a P @ es"
    and "\<And>ch v. Reply ch v \<in> set es \<Longrightarrow> ch \<in> set (conn_tx ev)"
proof -
  obtain es t where one: "run_connection_actor io fb (conn_task io fb a P) [ev] = (es, t)" by force
  then have "conn_log io fb a (P\<lparr>ep_conn := ep_conn P @ [ev]\<rparr>) = conn_log io fb a P @ es"
    by (auto simp: conn_log_def conn_task_def run_connection_actor_def actor_run_append split: prod.splits)
  then show ?thesis using that run_connection_one_reply [OF one] by blast
qed

lemma conn_log_consumed:
  assumes "ch \<in># consumed (conn_log io fb a P)"
  shows "ch \<in> set (conn_chans P)"
proof -
  have "consumed (conn_log io fb a P) \<subseteq># mset (conn_chans P)"
    using conn.run_consumed_le [OF _ conn_log_run [unfolded run_connection_actor_def]]
    by (simp add: conn_held_def conn_chans_def)
  with assms show ?thesis by (metis mset_subset_eqD set_mset_mset)
qed

lemmas conn_log_chans = conn_log_consumed [OF Reply_consumed]

lemma conn_log_awaited:
  assumes "distinct (conn_chans P)" and "Reply ch v \<in> set (conn_log io fb a P)"
  shows "oneshot_await (conn_log io fb a P) ch = Some (Inr v)"
  using conn.run_reply_awaited [OF _ conn_log_run [unfolded run_connection_actor_def] _ assms(2)] assms(1)
  by (simp add: conn_held_def conn_chans_def)

lemma frames_read_append [simp]: "frames_read (evs @ evs') = frames_read evs @ frames_read evs'"
  by (simp add: frames_read_def map_filter_append)

lemma commands_append: "commands (evs @ evs') = commands evs @ commands evs'"
  by (simp add: commands_def map_filter_append)

section \<open>The invariant of one end\<close>

text \<open>The history of the sender with the event it is working on, once the connection has answered
  its command with \<open>Ok\<close>.\<close>

definition ep_view :: "'n NoiseIO \<Rightarrow> flexbuffers \<Rightarrow> 'n ConnectionActor \<Rightarrow> endpoint \<Rightarrow> bool \<Rightarrow> rs_event list" where
  "ep_view io fb a P d = ep_sender P @ (case ep_waits P of
     Some w \<Rightarrow> if Reply (wait_chan w) (Inr ()) \<in> set (conn_log io fb a P)
              then [wait_event w \<lparr>conn_ok = Some True, client_ok = Some d\<rparr>] else []
   | None \<Rightarrow> [])"

definition ep_inv :: "'n NoiseIO \<Rightarrow> flexbuffers \<Rightarrow> 'n ConnectionActor \<Rightarrow> endpoint \<Rightarrow> bool" where
  "ep_inv io fb a P \<longleftrightarrow> list_all answered (ep_sender P) \<and> distinct (conn_chans P)
     \<and> prefix (taken P) (forwarded (conn_log io fb a P))
     \<and> (\<forall>x ch w d. FromHandle (ConnSend x ch) w \<in> set (ep_conn P) \<longrightarrow>
          Reply ch (Inr ()) \<in> set (conn_log io fb a P) \<longrightarrow> x \<in> on_wire (ep_view io fb a P d))"

lemma ep_inv_new: "ep_inv io fb a endpoint_new"
  by (simp add: ep_inv_def endpoint_new_def conn_chans_def taken_def map_filter_simps)

lemma rs_log_snoc:
  assumes "list_all answered evs" and "answered ev"
  obtains es a where "rs_step (rs_actor evs) ev = (es, Done a)" and "rs_log (evs @ [ev]) = rs_log evs @ es"
    and "rs_actor (evs @ [ev]) = a"
proof -
  obtain s where run: "rs_run evs = (rs_log evs, Running s)" using assms(1) by (rule rs_run_answered)
  obtain es' s' where step: "rs_step s ev = (es', Done s')" using assms(2) rs_step_answered by blast
  from run step have "rs_run (evs @ [ev]) = (rs_log evs @ es', Running s')" by (simp add: actor_run_append)
  with run have "rs_log (evs @ [ev]) = rs_log evs @ es'" "rs_actor (evs @ [ev]) = s'" "rs_actor evs = s"
    by (simp_all add: rs_run rs_actor_def)
  with step that show ?thesis by simp
qed

lemma ep_view_requests: "length (requests (ep_view io fb a P d)) \<le> Suc (length (requests (ep_sender P)))"
proof -
  have "length (requests [wait_event w e]) \<le> 1" for w e by (cases w) auto
  then show ?thesis by (auto simp: ep_view_def split: option.splits)
qed

lemma ep_view_Send:
  assumes "FromConnection (Send m n) e \<in> set (ep_view io fb a P d)"
  shows "FromConnection (Send m n) e \<in> set (ep_sender P) \<or> (\<exists>ch. ep_waits P = Some (Acking m n ch))"
proof (cases "ep_waits P")
  case (Some w)
  with assms show ?thesis by (cases w) (auto simp: ep_view_def split: if_splits)
qed (use assms in \<open>simp add: ep_view_def\<close>)

lemma wait_event_answered [simp]: "answered (wait_event w \<lparr>conn_ok = Some x, client_ok = Some y\<rparr>)"
  by (cases w) simp_all

lemma on_wire_wait:
  assumes "list_all answered evs"
  shows "wait_request (rs_actor evs) w \<in> on_wire (evs @ [wait_event w \<lparr>conn_ok = Some True, client_ok = Some d\<rparr>])"
proof -
  let ?ev = "wait_event w \<lparr>conn_ok = Some True, client_ok = Some d\<rparr>"
  obtain es a where "rs_step (rs_actor evs) ?ev = (es, Done a)" and "rs_log (evs @ [?ev]) = rs_log evs @ es"
    using rs_log_snoc [OF assms wait_event_answered] by blast
  then show ?thesis by (cases w) (auto simp: on_wire_def Let_def next_sequence_number_def split: bool.splits)
qed

lemma taken_wait:
  "ep_waits P = Some w \<Longrightarrow> taken (P\<lparr>ep_waits := None, ep_sender := ep_sender P @ [wait_event w e]\<rparr>) = taken P"
  by (cases w) (auto simp: taken_def map_filter_def)

text \<open>How the view of an end grows: not at all, or by one event. A message received was forwarded by
  the connection.\<close>

definition grows :: "ReliableNetworkMessage set \<Rightarrow> rs_event list \<Rightarrow> rs_event list \<Rightarrow> bool" where
  "grows X evs evs' \<longleftrightarrow> evs' = evs
     \<or> (\<exists>ev. evs' = evs @ [ev] \<and> (\<forall>x e. ev = FromConnection x e \<longrightarrow> x \<in> X))"

lemma growsI:
  "grows X evs evs" "(\<And>x e. ev = FromConnection x e \<Longrightarrow> x \<in> X) \<Longrightarrow> grows X evs (evs @ [ev])"
  by (auto simp: grows_def)

lemma wait_event_forwarded:
  assumes "ep_inv io fb a P" and "ep_waits P = Some w" and "wait_event w e = FromConnection x e'"
  shows "x \<in> set (forwarded (conn_log io fb a P))"
proof -
  from assms(2,3) have "x \<in> set (taken P)" by (cases w) (auto simp: taken_def)
  with assms(1) show ?thesis by (auto simp: ep_inv_def dest: set_mono_prefix)
qed

lemma ep_view_reads:
  assumes "ep_sender P' = ep_sender P" and "ep_waits P' = ep_waits P"
    and "ep_conn P' = ep_conn P \<or> (\<exists>ev. ep_conn P' = ep_conn P @ [ev] \<and> conn_tx ev = [])"
  shows "ep_view io fb a P' d = ep_view io fb a P d"
proof -
  have "Reply ch v \<in> set (conn_log io fb a P') \<longleftrightarrow> Reply ch v \<in> set (conn_log io fb a P)" for ch v
    using assms(3)
  proof
    assume "\<exists>ev. ep_conn P' = ep_conn P @ [ev] \<and> conn_tx ev = []"
    then obtain ev where ev: "ep_conn P' = ep_conn P @ [ev]" "conn_tx ev = []" by blast
    obtain es where "conn_log io fb a (P\<lparr>ep_conn := ep_conn P @ [ev]\<rparr>) = conn_log io fb a P @ es"
      and "\<And>ch v. Reply ch v \<in> set es \<Longrightarrow> ch \<in> set (conn_tx ev)" by (rule conn_log_snoc) blast
    moreover from ev have "conn_log io fb a P' = conn_log io fb a (P\<lparr>ep_conn := ep_conn P @ [ev]\<rparr>)"
      by (simp add: conn_log_def)
    ultimately show ?thesis using ev(2) by auto
  qed (simp add: conn_log_def)
  with assms(1,2) show ?thesis by (simp add: ep_view_def split: option.splits)
qed

lemma endpoint_step_view:
  assumes "endpoint_step io fb a fs P P'" and inv: "ep_inv io fb a P"
  shows "\<exists>d'. grows (set (forwarded (conn_log io fb a P))) (ep_view io fb a P d') (ep_view io fb a P' d)"
  using assms(1)
proof cases
  case (submit c m ch)
  then have "ep_view io fb a P' d = ep_view io fb a P d"
    by (auto simp: ep_view_def dest: conn_log_chans)
  then show ?thesis by (metis growsI(1))
next
  case (take_send m n q c)
  then have "ep_view io fb a P' d = ep_view io fb a P d"
    by (auto simp: ep_view_def dest: conn_log_chans)
  then show ?thesis by (metis growsI(1))
next
  case (take_ack n q e)
  then have "Ack n \<in> set (forwarded (conn_log io fb a P))"
    by (metis in_set_dropD list.set_intros(1) queued_def)
  with take_ack show ?thesis by (auto simp: ep_view_def intro: growsI)
next
  case idle
  then show ?thesis by (auto simp: ep_view_def intro: growsI)
next
  case (serve w wr)
  let ?ev = "FromHandle (ConnSend (wait_request (rs_actor (ep_sender P)) w) (wait_chan w)) wr"
  obtain es where log: "conn_log io fb a (P\<lparr>ep_conn := ep_conn P @ [?ev]\<rparr>) = conn_log io fb a P @ es"
    by (rule conn_log_snoc) blast
  have "Reply (wait_chan w) (Inr ()) \<notin> set (conn_log io fb a P)"
    using serve(3) by (blast dest: conn_log_chans)
  with serve log wait_event_forwarded [OF inv serve(2)] show ?thesis
    by (auto simp: ep_view_def intro!: growsI)
next
  case (resume w r cl)
  show ?thesis
  proof (cases "Reply (wait_chan w) (Inr ()) \<in> set (conn_log io fb a P)")
    case True
    with conn_log_awaited [OF _ True] inv resume(3) have "is_ok r"
      by (auto simp: ep_inv_def ConnectionHandle_send_def)
    with True resume have "ep_view io fb a P' d = ep_view io fb a P cl" by (simp add: ep_view_def)
    then show ?thesis by (metis growsI(1))
  next
    case False
    with resume wait_event_forwarded [OF inv resume(2)] show ?thesis
      by (auto simp: ep_view_def intro!: growsI)
  qed
next
  case (read s f)
  then have "ep_view io fb a P' d = ep_view io fb a P d" by (intro ep_view_reads) simp_all
  then show ?thesis by (metis growsI(1))
next
  case (forward f)
  then have "ep_view io fb a P' d = ep_view io fb a P d" by (intro ep_view_reads) simp_all
  then show ?thesis by (metis growsI(1))
next
  case (closed item err)
  then have "ep_view io fb a P' d = ep_view io fb a P d" by (intro ep_view_reads) simp_all
  then show ?thesis by (metis growsI(1))
qed

lemma grows_on_wire: "grows X evs evs' \<Longrightarrow> x \<in> on_wire evs \<Longrightarrow> x \<in> on_wire evs'"
  by (auto simp: grows_def intro: on_wire_append)

text \<open>What an end has written and forwarded only grows.\<close>

lemma endpoint_step_log:
  assumes "endpoint_step io fb a fs P P'"
  obtains es where "conn_log io fb a P' = conn_log io fb a P @ es"
  using assms
proof cases
  case (serve w wr)
  then show ?thesis using that by (metis conn_log_snoc)
next
  case (forward f)
  then have "conn_log io fb a P' = conn_log io fb a (P\<lparr>ep_conn := ep_conn P @ [FromReader (Some (Inr f)) (Some True)]\<rparr>)"
    by (simp add: conn_log_def)
  then show ?thesis using that by (metis conn_log_snoc)
next
  case (closed item err)
  then show ?thesis using that by (metis conn_log_snoc)
qed (use that [of "[]"] in simp_all)

lemma endpoint_step_taken:
  assumes "endpoint_step io fb a fs P P'" and "prefix (taken P) (forwarded (conn_log io fb a P))"
  shows "prefix (taken P') (forwarded (conn_log io fb a P'))"
proof -
  obtain es where log: "conn_log io fb a P' = conn_log io fb a P @ es"
    using assms(1) by (rule endpoint_step_log)
  have next_taken: "prefix (taken P @ [x]) (forwarded (conn_log io fb a P))"
    if "queued io fb a P = x # q" for x q
    using assms(2) that by (auto simp: queued_def prefix_def)
  from assms(1) have "prefix (taken P') (forwarded (conn_log io fb a P))"
  proof cases
    case (submit c m ch)
    with assms(2) show ?thesis by (simp add: taken_def)
  next
    case (take_send m n q c)
    with next_taken [OF take_send(3)] show ?thesis by (simp add: taken_def)
  next
    case (take_ack n q e)
    with next_taken [OF take_ack(3)] show ?thesis by (simp add: taken_def map_filter_def)
  next
    case idle
    with assms(2) show ?thesis by (simp add: taken_def map_filter_def)
  next
    case (resume w r cl)
    with assms(2) show ?thesis by (simp add: taken_wait)
  qed (use assms(2) in \<open>simp_all add: taken_def\<close>)
  with log show ?thesis by (simp add: prefix_append)
qed

text \<open>A command answered in this step is the one the connection just served.\<close>

lemma endpoint_step_served:
  assumes "endpoint_step io fb a fs P P'"
    and "FromHandle (ConnSend x ch) u \<in> set (ep_conn P')" and "Reply ch (Inr ()) \<in> set (conn_log io fb a P')"
    and "\<not> (FromHandle (ConnSend x ch) u \<in> set (ep_conn P) \<and> Reply ch (Inr ()) \<in> set (conn_log io fb a P))"
  obtains w where "ep_waits P = Some w" and "ch = wait_chan w" and "x = wait_request (rs_actor (ep_sender P)) w"
    and "ep_sender P' = ep_sender P" and "ep_waits P' = ep_waits P"
proof -
  note found = that
  have served: thesis
    if P': "ep_conn P' = ep_conn P @ [ev]" "ep_sender P' = ep_sender P" "ep_waits P' = ep_waits P"
    and ev: "conn_tx ev = []
      \<or> (\<exists>w wr. ep_waits P = Some w \<and> wait_chan w \<notin> set (conn_chans P)
          \<and> ev = FromHandle (ConnSend (wait_request (rs_actor (ep_sender P)) w) (wait_chan w)) wr)" for ev
  proof -
    from P' have "conn_log io fb a P' = conn_log io fb a (P\<lparr>ep_conn := ep_conn P @ [ev]\<rparr>)"
      by (simp add: conn_log_def)
    moreover obtain es where "conn_log io fb a (P\<lparr>ep_conn := ep_conn P @ [ev]\<rparr>) = conn_log io fb a P @ es"
      and replies: "\<And>ch v. Reply ch v \<in> set es \<Longrightarrow> ch \<in> set (conn_tx ev)" by (rule conn_log_snoc) blast
    ultimately have new: "Reply ch (Inr ()) \<in> set (conn_log io fb a P) \<or> ch \<in> set (conn_tx ev)"
      using assms(3) by auto
    have old: "ch \<in> set (conn_chans P)" if "FromHandle (ConnSend x ch) u \<in> set (ep_conn P)"
      using that by (force simp: conn_chans_def)
    show thesis
    proof (cases "FromHandle (ConnSend x ch) u \<in> set (ep_conn P)")
      case True
      with new assms(4) have "ch \<in> set (conn_tx ev)" by blast
      with old [OF True] ev show thesis by auto
    next
      case False
      with assms(2) P' have "ev = FromHandle (ConnSend x ch) u" by simp
      with ev P' found show thesis by auto
    qed
  qed
  from assms(1) show ?thesis
  proof cases
    case (serve w wr)
    then show ?thesis by (intro served) auto
  next
    case (forward f)
    then show ?thesis by (intro served) auto
  next
    case (closed item err)
    then show ?thesis by (intro served) auto
  qed (use assms(2-4) in auto)
qed

lemma endpoint_step_inv:
  assumes "endpoint_step io fb a fs P P'" and inv: "ep_inv io fb a P"
  shows "ep_inv io fb a P'"
proof -
  have answered: "list_all answered (ep_sender P')"
    using assms(1) inv by cases (simp_all add: ep_inv_def)
  have chans: "distinct (conn_chans P')"
    using assms(1) inv by cases (auto simp: ep_inv_def conn_chans_def)
  have wire: "x \<in> on_wire (ep_view io fb a P' d)"
    if x: "FromHandle (ConnSend x ch) u \<in> set (ep_conn P')" "Reply ch (Inr ()) \<in> set (conn_log io fb a P')"
    for x ch u d
  proof (cases "FromHandle (ConnSend x ch) u \<in> set (ep_conn P) \<and> Reply ch (Inr ()) \<in> set (conn_log io fb a P)")
    case True
    with inv have "x \<in> on_wire (ep_view io fb a P d')" for d' by (auto simp: ep_inv_def)
    with endpoint_step_view [OF assms, of d] show ?thesis by (blast intro: grows_on_wire)
  next
    case False
    with assms(1) x obtain w where "ep_waits P = Some w" "ch = wait_chan w"
      "x = wait_request (rs_actor (ep_sender P)) w" "ep_sender P' = ep_sender P" "ep_waits P' = ep_waits P"
      by (rule endpoint_step_served)
    with x(2) on_wire_wait [of "ep_sender P" w d] inv show ?thesis by (simp add: ep_view_def ep_inv_def)
  qed
  from answered chans wire endpoint_step_taken [OF assms(1)] inv show ?thesis by (simp add: ep_inv_def)
qed

section \<open>The invariant of both ends\<close>

definition frames_seen :: "endpoint \<Rightarrow> bytes list" where
  "frames_seen P = frames_read (ep_conn P) @ (case ep_reading P of Some f \<Rightarrow> [f] | None \<Rightarrow> [])"

lemma endpoint_step_seen:
  "endpoint_step io fb a fs P P' \<Longrightarrow> prefix (frames_seen P) fs \<Longrightarrow> prefix (frames_seen P') fs"
  by (induction rule: endpoint_step.induct) (auto simp: frames_seen_def)

lemma endpoint_step_flushed:
  assumes "endpoint_step io fb a fs P P'"
  shows "prefix (frames_flushed (conn_log io fb a P)) (frames_flushed (conn_log io fb a P'))"
  using assms by (rule endpoint_step_log) simp

lemma stack_inv:
  assumes "stack io fb a b P Q"
  shows "ep_inv io fb a P" and "ep_inv io fb b Q"
    and "prefix (frames_seen P) (frames_flushed (conn_log io fb b Q))"
    and "prefix (frames_seen Q) (frames_flushed (conn_log io fb a P))"
  using assms
proof (induction rule: stack.induct)
  case stack_start
  {
    case 1 show ?case by (rule ep_inv_new)
  next
    case 2 show ?case by (rule ep_inv_new)
  next
    case 3 show ?case by (simp add: frames_seen_def endpoint_new_def)
  next
    case 4 show ?case by (simp add: frames_seen_def endpoint_new_def)
  }
next
  case (step_left P Q P')
  {
    case 1 show ?case using step_left by (blast intro: endpoint_step_inv)
  next
    case 2 show ?case using step_left by blast
  next
    case 3 show ?case using step_left by (blast intro: endpoint_step_seen)
  next
    case 4 show ?case
      using step_left endpoint_step_flushed [OF step_left.hyps(2)] by (blast intro: prefix_order.trans)
  }
next
  case (step_right P Q Q')
  {
    case 1 show ?case using step_right by blast
  next
    case 2 show ?case using step_right by (blast intro: endpoint_step_inv)
  next
    case 3 show ?case
      using step_right endpoint_step_flushed [OF step_right.hyps(2)] by (blast intro: prefix_order.trans)
  next
    case 4 show ?case using step_right by (blast intro: endpoint_step_seen)
  }
qed

section \<open>The stack refines the link\<close>

lemma link_sym: "link l r \<Longrightarrow> link r l"
  by (induction rule: link.induct) (auto intro: link.intros)

lemma link_grows:
  assumes "link l r" and "grows X l l'" and "X \<subseteq> on_wire r"
  shows "link l' r"
proof -
  have "link (l @ [ev]) r" if "\<forall>x e. ev = FromConnection x e \<longrightarrow> x \<in> X" for ev
    using that assms(1,3) by (cases ev) (auto intro: link.intros)
  with assms(1,2) show ?thesis by (auto simp: grows_def)
qed

context noise_channel
begin

text \<open>What the connection forwards was handed to the other end's connection, in this order, and is
  on the wire for the sender there.\<close>

lemma stack_forwarded:
  assumes "stack io fb a b P Q" and "flex_roundtrip fb" and "paired (conn_noise a) (conn_noise b)"
  shows "prefix (forwarded (conn_log io fb b Q)) (commands (ep_conn P))"
    and "set (forwarded (conn_log io fb b Q)) \<subseteq> on_wire (ep_view io fb a P d)"
proof -
  obtain q xs where q: "produces io (conn_noise a) q" "map snd q = frames_flushed (conn_log io fb a P)"
      "carries fb q xs" "prefix xs (commands (ep_conn P))"
    and ok: "\<forall>x \<in> set xs. \<exists>ch w. FromHandle (ConnSend x ch) w \<in> set (ep_conn P)
        \<and> Reply ch (Inr ()) \<in> set (conn_log io fb a P)"
    using connection_flushes [OF conn_log_run] by blast
  have "prefix (frames_read (ep_conn Q)) (map snd q)"
    using stack_inv(4) [OF assms(1)] by (simp add: q(2) frames_seen_def append_prefixD)
  from connection_forwards [OF assms(2) conn_log_run assms(3) q(1,3) this]
  have "prefix (forwarded (conn_log io fb b Q)) xs" by blast
  with q(4) show "prefix (forwarded (conn_log io fb b Q)) (commands (ep_conn P))"
    by (rule prefix_order.trans [rotated])
  have "set xs \<subseteq> on_wire (ep_view io fb a P d)"
    using ok stack_inv(1) [OF assms(1)] by (fastforce simp: ep_inv_def)
  with \<open>prefix (forwarded _) xs\<close> show "set (forwarded (conn_log io fb b Q)) \<subseteq> on_wire (ep_view io fb a P d)"
    by (meson set_mono_prefix subset_trans)
qed

lemma stack_link:
  assumes "stack io fb a b P Q" and "flex_roundtrip fb"
    and "paired (conn_noise a) (conn_noise b)" and "paired (conn_noise b) (conn_noise a)"
  shows "link (ep_view io fb a P d) (ep_view io fb b Q d')"
  using assms(1)
proof (induction arbitrary: d d' rule: stack.induct)
  case stack_start
  show ?case by (simp add: ep_view_def endpoint_new_def link_start)
next
  case (step_left P Q P')
  from endpoint_step_view [OF step_left.hyps(2) stack_inv(1) [OF step_left.hyps(1)], of d] obtain d2
    where "grows (set (forwarded (conn_log io fb a P))) (ep_view io fb a P d2) (ep_view io fb a P' d)"
    by blast
  then show ?case
    using link_grows step_left.IH stack_forwarded(2) [OF stack_sym [OF step_left.hyps(1)] assms(2,4)]
    by blast
next
  case (step_right P Q Q')
  from endpoint_step_view [OF step_right.hyps(2) stack_inv(2) [OF step_right.hyps(1)], of d'] obtain d2
    where "grows (set (forwarded (conn_log io fb b Q))) (ep_view io fb b Q d2) (ep_view io fb b Q' d')"
    by blast
  then show ?case
    using link_grows link_sym step_right.IH stack_forwarded(2) [OF step_right.hyps(1) assms(2,3)]
    by blast
qed

end

section \<open>The order of messages\<close>

fun payload :: "ReliableNetworkMessage \<Rightarrow> Message option" where
  "payload (Send m n) = Some m"
| "payload (Ack n) = None"

text \<open>The messages a client gave to \<open>send\<close>, and those its node handed it.\<close>

definition submitted :: "endpoint \<Rightarrow> Message list" where
  "submitted P = map fst (requests (ep_sender P))
     @ (case ep_waits P of Some (Submitting m ch c) \<Rightarrow> [m] | _ \<Rightarrow> [])"

definition delivered :: "rs_event list \<Rightarrow> Message list" where
  "delivered evs = List.map_filter (\<lambda>x. case x of ToClient m \<Rightarrow> Some m | _ \<Rightarrow> None) (outs (rs_log evs))"

lemma rs_event_cases:
  obtains (message) m n e where "ev = FromConnection (Send m n) e"
  | (other) n where "from_peer ev = None \<or> from_peer ev = Some (Ack n)"
  by (metis ReliableNetworkMessage.exhaust from_peer.elims)

lemma delivered_snoc:
  assumes "list_all answered evs" and "answered ev"
  shows "ev = FromConnection (Send m n) e \<Longrightarrow>
      delivered (evs @ [ev]) = delivered evs @ (if conn_ok e = Some True \<and> client_ok e = Some True then [m] else [])"
    and "from_peer ev = None \<or> from_peer ev = Some (Ack n) \<Longrightarrow> delivered (evs @ [ev]) = delivered evs"
proof -
  obtain es a where step: "rs_step (rs_actor evs) ev = (es, Done a)" and log: "rs_log (evs @ [ev]) = rs_log evs @ es"
    using assms by (rule rs_log_snoc)
  show "delivered (evs @ [ev]) = delivered evs @ (if conn_ok e = Some True \<and> client_ok e = Some True then [m] else [])"
    if "ev = FromConnection (Send m n) e"
    using that step log by (auto simp: delivered_def map_filter_def split: option.splits bool.splits)
  show "delivered (evs @ [ev]) = delivered evs" if "from_peer ev = None \<or> from_peer ev = Some (Ack n)"
    using that step log
    by (cases ev rule: rs_event_kinds) (auto simp: delivered_def map_filter_def split: option.splits bool.splits)
qed

lemma delivered_received:
  assumes "list_all answered evs"
  shows "subseq (delivered evs) (List.map_filter payload (List.map_filter from_peer evs))
   \<and> ((\<forall>m n e. FromConnection (Send m n) e \<in> set evs \<longrightarrow> conn_ok e = Some True \<and> client_ok e = Some True) \<longrightarrow>
        delivered evs = List.map_filter payload (List.map_filter from_peer evs))"
  using assms
proof (induction evs rule: rev_induct)
  case Nil
  show ?case by (simp add: delivered_def rs_log_def start_reliable_sender_def ReliableSenderHandle_start_def map_filter_simps)
next
  case (snoc ev evs)
  then have evs: "list_all answered evs" "answered ev" by simp_all
  show ?case
  proof (cases ev rule: rs_event_cases)
    case (message m n e)
    with snoc.IH [OF evs(1)] delivered_snoc(1) [OF evs message] show ?thesis
      by (auto simp: map_filter_append map_filter_simps intro: list_emb_append_mono subseq_order.trans)
  next
    case (other n)
    with snoc.IH [OF evs(1)] delivered_snoc(2) [OF evs other] show ?thesis
      by (auto simp: map_filter_append map_filter_simps)
  qed
qed

text \<open>The messages among the commands of the connection are those the client submitted.\<close>

definition ep_ordered :: "endpoint \<Rightarrow> bool" where
  "ep_ordered P \<longleftrightarrow> List.map_filter payload (commands (ep_conn P)) = map fst (requests (ep_sender P))
     @ (case ep_waits P of Some (Submitting m ch c) \<Rightarrow> if c \<in> set (conn_chans P) then [m] else [] | _ \<Rightarrow> [])"

lemma conn_awaited_chans:
  assumes "ConnectionHandle_send (oneshot_await (conn_log io fb a P) ch) = Done r"
  shows "ch \<in> set (conn_chans P)"
proof -
  from assms have "ch \<in># consumed (conn_log io fb a P)"
    using oneshot_await_None [of "conn_log io fb a P" ch] by (auto simp: ConnectionHandle_send_def)
  then show ?thesis by (rule conn_log_consumed)
qed

lemma endpoint_step_ordered:
  assumes "endpoint_step io fb a fs P P'" and "ep_ordered P"
  shows "ep_ordered P'"
  using assms(1)
proof cases
  case (serve w wr)
  with assms(2) show ?thesis
    by (cases w) (auto simp: ep_ordered_def commands_append map_filter_append map_filter_simps)
next
  case (resume w r cl)
  with conn_awaited_chans [OF resume(3)] assms(2) show ?thesis by (cases w) (auto simp: ep_ordered_def)
next
  case (forward f)
  with assms(2) show ?thesis by (simp add: ep_ordered_def commands_append conn_chans_def split: option.splits rs_wait.splits)
next
  case (closed item err)
  with assms(2) show ?thesis by (simp add: ep_ordered_def commands_append split: option.splits rs_wait.splits)
qed (use assms(2) in \<open>auto simp: ep_ordered_def split: option.splits rs_wait.splits\<close>)

lemma stack_ordered:
  assumes "stack io fb a b P Q"
  shows "ep_ordered P \<and> ep_ordered Q"
  using assms
proof (induction rule: stack.induct)
  case stack_start
  show ?case by (simp add: ep_ordered_def endpoint_new_def map_filter_simps)
qed (blast intro: endpoint_step_ordered)+

lemma ep_ordered_submitted: "ep_ordered P \<Longrightarrow> prefix (List.map_filter payload (commands (ep_conn P))) (submitted P)"
  by (auto simp: ep_ordered_def submitted_def split: option.splits rs_wait.splits)

lemma prefix_map_filter: "prefix xs ys \<Longrightarrow> prefix (List.map_filter f xs) (List.map_filter f ys)"
  by (auto simp: prefix_def map_filter_append)

lemma received_taken: "prefix (List.map_filter from_peer (ep_sender Q)) (taken Q)"
  by (simp add: taken_def)

context noise_channel
begin

lemma stack_received_in_order:
  assumes "stack io fb a b P Q" and "flex_roundtrip fb" and "paired (conn_noise a) (conn_noise b)"
  shows "prefix (List.map_filter payload (List.map_filter from_peer (ep_sender Q))) (submitted P)"
proof -
  have "prefix (taken Q) (forwarded (conn_log io fb b Q))"
    using stack_inv(2) [OF assms(1)] by (simp add: ep_inv_def)
  with received_taken stack_forwarded(1) [OF assms]
  have "prefix (List.map_filter from_peer (ep_sender Q)) (commands (ep_conn P))"
    by (blast intro: prefix_order.trans)
  from prefix_map_filter [OF this, of payload] ep_ordered_submitted stack_ordered [OF assms(1)]
  show ?thesis by (blast intro: prefix_order.trans)
qed

end

section \<open>A deadlock\<close>

text \<open>The sender of an end waits for its connection, which waits for room in the queue of the sender.\<close>

definition deadlocked :: "'n NoiseIO \<Rightarrow> flexbuffers \<Rightarrow> 'n ConnectionActor \<Rightarrow> endpoint \<Rightarrow> bool" where
  "deadlocked io fb a P \<longleftrightarrow> (case (ep_waits P, ep_reading P) of
     (Some w, Some f) \<Rightarrow> wait_chan w \<notin> set (conn_chans P)
        \<and> subscription_capacity \<le> length (queued io fb a P)
   | _ \<Rightarrow> False)"

lemma deadlocked_stuck:
  assumes "deadlocked io fb a P"
  shows "\<not> endpoint_step io fb a fs P P'"
proof
  assume "endpoint_step io fb a fs P P'"
  then show False
    using assms by cases (auto simp: deadlocked_def dest: conn_awaited_chans split: option.splits)
qed

lemma conn_serving_snoc:
  assumes "conn_task io fb a P = Running (Serving s)" and "connection_step io fb (Serving s) ev = (es, Done s')"
    and "ep_conn P' = ep_conn P @ [ev]"
  shows "conn_log io fb a P' = conn_log io fb a P @ es" and "conn_task io fb a P' = Running s'"
proof -
  obtain es0 where "run_connection_actor io fb (Running (Serving a)) (ep_conn P) = (es0, Running (Serving s))"
    using assms(1) by (metis conn_task_def prod.collapse)
  with assms(2) have "run_connection_actor io fb (Running (Serving a)) (ep_conn P') = (es0 @ es, Running s')"
    by (simp add: assms(3) run_connection_actor_def actor_run_append)
  with \<open>run_connection_actor io fb (Running (Serving a)) (ep_conn P) = _\<close>
  show "conn_log io fb a P' = conn_log io fb a P @ es" "conn_task io fb a P' = Running s'"
    by (simp_all add: conn_log_def conn_task_def)
qed

text \<open>An idle end sends a message: its sender takes the command, the connection writes the frame,
  the sender goes on.\<close>

lemma endpoint_sends:
  assumes "stack io fb a b P Q" and "ep_waits P = None" and "ep_reading P = None"
    and "conn_task io fb a P = Running (Serving s)" and "\<And>n. \<exists>p. flex_serialize fb (Send m n) = Inr p"
    and "\<And>n p. flex_serialize fb (Send m n) = Inr p \<Longrightarrow>
       \<exists>f n'. build_transport_message io (conn_noise s) p = Done (f, n') \<and> J n'"
  obtains P' x p f n where "stack io fb a b P' Q" and "ep_waits P' = None" and "ep_reading P' = None"
    and "conn_task io fb a P' = Running (Serving \<lparr>conn_noise = n\<rparr>)" and "J n"
    and "frames_flushed (conn_log io fb a P') = frames_flushed (conn_log io fb a P) @ [f]"
    and "flex_serialize fb x = Inr p" and "build_transport_message io (conn_noise s) p = Done (f, n)"
proof -
  obtain c where c: "c \<notin> set (conn_chans P)" using ex_new_if_finite [OF infinite_UNIV_nat] by blast
  let ?w = "Submitting m 0 c"
  let ?P1 = "P\<lparr>ep_waits := Some ?w\<rparr>"
  have P1: "stack io fb a b ?P1 Q"
    using step_left [OF assms(1) submit [OF assms(2) c]] .
  let ?x = "wait_request (rs_actor (ep_sender P)) ?w"
  let ?ev = "FromHandle (ConnSend ?x c) (Some (Inr ()))"
  let ?P2 = "?P1\<lparr>ep_conn := ep_conn P @ [?ev]\<rparr>"
  have P2: "stack io fb a b ?P2 Q"
    using step_left [OF P1 serve [of ?P1 ?w]] c assms(3) by simp
  obtain p where p: "flex_serialize fb ?x = Inr p" using assms(5) by auto
  with assms(6) obtain f n where f: "build_transport_message io (conn_noise s) p = Done (f, n)" and J: "J n"
    by fastforce
  have "connection_step io fb (Serving s) ?ev
      = ([Out (ToWriter f (Some (Inr ()))), Reply c (Inr ())], Done (Serving \<lparr>conn_noise = n\<rparr>))"
    using p f by (cases s) (simp add: handle_send_def as_bytes_def emit_def untraced_def)
  from conn_serving_snoc [OF assms(4) this, of ?P2]
  have log: "conn_log io fb a ?P2 = conn_log io fb a P @ [Out (ToWriter f (Some (Inr ()))), Reply c (Inr ())]"
    and task: "conn_task io fb a ?P2 = Running (Serving \<lparr>conn_noise = n\<rparr>)" by simp_all
  have "distinct (conn_chans ?P2)" using stack_inv(1) [OF P2] by (simp add: ep_inv_def)
  from conn_log_awaited [OF this, of c "Inr ()" io fb a] log
  have "ConnectionHandle_send (oneshot_await (conn_log io fb a ?P2) (wait_chan ?w)) = Done (Inr ())"
    by (simp add: ConnectionHandle_send_def)
  from step_left [OF P2 resume [OF _ this]]
  have "stack io fb a b (?P2\<lparr>ep_waits := None,
      ep_sender := ep_sender P @ [wait_event ?w all_ok]\<rparr>) Q" by simp
  from that [OF this _ _ _ J _ p f] log task assms(3) show ?thesis
    by (simp add: conn_log_def conn_task_def)
qed

text \<open>\<open>k\<close> messages have gone from \<open>P\<close> to the queue of \<open>Q\<close>, whose sender has done nothing yet, and \<open>P\<close> can
  send \<open>j\<close> more.\<close>

definition flooded ::
  "'n NoiseIO \<Rightarrow> flexbuffers \<Rightarrow> 'n ConnectionActor \<Rightarrow> 'n ConnectionActor \<Rightarrow> ('n \<Rightarrow> 'n \<Rightarrow> bool) \<Rightarrow> (nat \<Rightarrow> 'n \<Rightarrow> bool)
    \<Rightarrow> nat \<Rightarrow> nat \<Rightarrow> endpoint \<Rightarrow> endpoint \<Rightarrow> bool" where
  "flooded io fb a b pr can k j P Q \<longleftrightarrow> stack io fb a b P Q \<and> ep_waits P = None \<and> ep_reading P = None
     \<and> ep_sender Q = [] \<and> ep_waits Q = None \<and> ep_reading Q = None
     \<and> length (forwarded (conn_log io fb b Q)) = k
     \<and> frames_read (ep_conn Q) = frames_flushed (conn_log io fb a P)
     \<and> (\<exists>s r. conn_task io fb a P = Running (Serving s) \<and> conn_task io fb b Q = Running (Serving r)
          \<and> pr (conn_noise s) (conn_noise r) \<and> can j (conn_noise s))"

context noise_channel
begin

lemma flood_sends:
  assumes "flooded io fb a b paired can k (Suc j) P Q" and "\<And>n. \<exists>p. flex_serialize fb (Send m n) = Inr p"
    and "\<And>i s n p. can (Suc i) s \<Longrightarrow> flex_serialize fb (Send m n) = Inr p \<Longrightarrow>
       \<exists>f s'. build_transport_message io s p = Done (f, s') \<and> can i s'"
    and "flex_roundtrip fb"
  obtains P' f s r r' x where "stack io fb a b P' Q" and "ep_waits P' = None" and "ep_reading P' = None"
    and "conn_task io fb a P' = Running (Serving s)" and "can j (conn_noise s)"
    and "frames_flushed (conn_log io fb a P') = frames_flushed (conn_log io fb a P) @ [f]"
    and "conn_task io fb b Q = Running (Serving r)" and "paired (conn_noise s) (conn_noise r')"
    and "connection_step io fb (Serving r) (FromReader (Some (Inr f)) (Some True))
           = ([Out (ToSubscriber x)], Done (Serving r'))"
proof -
  from assms(1) obtain s r where PQ: "stack io fb a b P Q" "ep_waits P = None" "ep_reading P = None"
    and s: "conn_task io fb a P = Running (Serving s)" "can (Suc j) (conn_noise s)"
    and r: "conn_task io fb b Q = Running (Serving r)" "paired (conn_noise s) (conn_noise r)"
    by (auto simp: flooded_def)
  from PQ s(1) assms(2) assms(3) [OF s(2)] obtain P' x p f n where P': "stack io fb a b P' Q"
    "ep_waits P' = None" "ep_reading P' = None" "conn_task io fb a P' = Running (Serving \<lparr>conn_noise = n\<rparr>)"
    "can j n" "frames_flushed (conn_log io fb a P') = frames_flushed (conn_log io fb a P) @ [f]"
    and x: "flex_serialize fb x = Inr p" "build_transport_message io (conn_noise s) p = Done (f, n)"
    by (rule endpoint_sends)
  from transport [OF r(2) x(2)] obtain n' where "read_transport_message io (conn_noise r) f = Done (p, n')"
    and "paired n n'" by blast
  moreover from assms(4) x(1) have "flex_from_slice fb p = Inr x" by (simp add: flex_roundtrip_def)
  ultimately have "connection_step io fb (Serving r) (FromReader (Some (Inr f)) (Some True))
      = ([Out (ToSubscriber x)], Done (Serving \<lparr>conn_noise = n'\<rparr>))"
    by (cases r) (simp add: handle_received_def from_bytes_def emit_def untraced_def)
  from that [OF P'(1-4) _ P'(6) r(1) _ this] P'(5) \<open>paired n n'\<close> show ?thesis by simp
qed

lemma flood_reads:
  assumes "flooded io fb a b paired can k j P Q" and "stack io fb a b P' Q"
    and "conn_task io fb b Q = Running (Serving r)"
    and "frames_flushed (conn_log io fb a P') = frames_flushed (conn_log io fb a P) @ [f]"
  shows "stack io fb a b P' (Q\<lparr>ep_reading := Some f\<rparr>)" and "queued io fb b Q = forwarded (conn_log io fb b Q)"
    and "length (queued io fb b Q) = k"
proof -
  show "stack io fb a b P' (Q\<lparr>ep_reading := Some f\<rparr>)"
    using assms(1,4) step_right [OF assms(2) read [OF _ assms(3)]] by (simp add: flooded_def)
  have "taken Q = []" using assms(1) by (simp add: flooded_def taken_def map_filter_simps)
  then show "queued io fb b Q = forwarded (conn_log io fb b Q)" by (simp add: queued_def)
  with assms(1) show "length (queued io fb b Q) = k" by (simp add: flooded_def)
qed

lemma flood_round:
  assumes "flooded io fb a b paired can k (Suc j) P Q" and "\<And>n. \<exists>p. flex_serialize fb (Send m n) = Inr p"
    and "\<And>i s n p. can (Suc i) s \<Longrightarrow> flex_serialize fb (Send m n) = Inr p \<Longrightarrow>
       \<exists>f s'. build_transport_message io s p = Done (f, s') \<and> can i s'"
    and "flex_roundtrip fb" and "k < subscription_capacity"
  shows "\<exists>P' Q'. flooded io fb a b paired can (Suc k) j P' Q'"
proof -
  from assms(1-4) obtain P' f s r r' x where P': "stack io fb a b P' Q" "ep_waits P' = None" "ep_reading P' = None"
    "conn_task io fb a P' = Running (Serving s)" "can j (conn_noise s)"
    and fl: "frames_flushed (conn_log io fb a P') = frames_flushed (conn_log io fb a P) @ [f]"
    and r: "conn_task io fb b Q = Running (Serving r)" "paired (conn_noise s) (conn_noise r')"
    and step: "connection_step io fb (Serving r) (FromReader (Some (Inr f)) (Some True))
           = ([Out (ToSubscriber x)], Done (Serving r'))"
    by (rule flood_sends)
  note reading = flood_reads [OF assms(1) P'(1) r(1) fl]
  let ?Q = "Q\<lparr>ep_reading := None, ep_conn := ep_conn Q @ [FromReader (Some (Inr f)) (Some True)]\<rparr>"
  have "length (queued io fb b (Q\<lparr>ep_reading := Some f\<rparr>)) < subscription_capacity"
    using reading(3) assms(5) by (simp add: queued_def)
  from step_right [OF reading(1) forward [OF _ this]] have Q: "stack io fb a b P' ?Q" by simp
  from conn_serving_snoc [OF r(1) step, of ?Q]
  have "conn_log io fb b ?Q = conn_log io fb b Q @ [Out (ToSubscriber x)]"
    "conn_task io fb b ?Q = Running (Serving r')" by simp_all
  with Q P' r(2) fl assms(1) have "flooded io fb a b paired can (Suc k) j P' ?Q"
    by (simp add: flooded_def)
  then show ?thesis by blast
qed

lemma deadlock_reachable:
  assumes "paired (conn_noise a) (conn_noise b)" and "can (Suc subscription_capacity) (conn_noise a)"
    and "\<And>n. \<exists>p. flex_serialize fb (Send m n) = Inr p"
    and "\<And>i s n p. can (Suc i) s \<Longrightarrow> flex_serialize fb (Send m n) = Inr p \<Longrightarrow>
       \<exists>f s'. build_transport_message io s p = Done (f, s') \<and> can i s'"
    and "flex_roundtrip fb"
  shows "\<exists>P Q. stack io fb a b P Q \<and> deadlocked io fb b Q"
proof -
  have "\<exists>P Q. flooded io fb a b paired can k (Suc subscription_capacity - k) P Q"
    if "k \<le> subscription_capacity" for k
    using that
  proof (induction k)
    case 0
    have "conn_log io fb x endpoint_new = []" "conn_task io fb x endpoint_new = Running (Serving x)" for x
      by (simp_all add: conn_log_def conn_task_def endpoint_new_def run_connection_actor_def)
    with assms(1,2) stack_start [of io fb a b] show ?case
      by (intro exI [of _ endpoint_new]) (simp add: flooded_def endpoint_new_def)
  next
    case (Suc k)
    then show ?case using flood_round [OF _ assms(3-5)] by (fastforce simp: Suc_diff_le)
  qed
  then obtain P Q where flood: "flooded io fb a b paired can subscription_capacity (Suc 0) P Q" by fastforce
  from this assms(3-5) obtain P' f s r r' x where P': "stack io fb a b P' Q"
    "frames_flushed (conn_log io fb a P') = frames_flushed (conn_log io fb a P) @ [f]"
    "conn_task io fb b Q = Running (Serving r)"
    by (rule flood_sends)
  note reading = flood_reads [OF flood P'(1,3,2)]
  obtain c where c: "c \<notin> set (conn_chans Q)" using ex_new_if_finite [OF infinite_UNIV_nat] by blast
  let ?Q = "Q\<lparr>ep_reading := Some f, ep_waits := Some (Submitting m 0 c)\<rparr>"
  have "stack io fb a b P' ?Q"
    using step_right [OF reading(1) submit [of _ c]] flood c by (simp add: flooded_def)
  moreover have "deadlocked io fb b ?Q"
    using reading(2,3) c flood by (simp add: deadlocked_def queued_def taken_def flooded_def map_filter_simps)
  ultimately show ?thesis by blast
qed

end

section \<open>A concrete run\<close>

text \<open>A codec for one message and its acknowledgements, and the run in which it is sent, delivered
  and acknowledged.\<close>

definition ping :: Message where
  "ping = Message_from_Ping PingMessage_default"

definition number_bits :: "u64 \<Rightarrow> bytes" where
  "number_bits n = map (\<lambda>i. if bit n i then 1 else 0) [0..<64]"

definition bits_number :: "bytes \<Rightarrow> u64" where
  "bits_number bs = horner_sum of_bool 2 (map (\<lambda>b. b = 1) bs)"

lemma bits_number_bits [simp]: "bits_number (number_bits n) = n"
proof -
  have "map (\<lambda>b. b = 1) (number_bits n) = map (bit n) [0..<64]"
    by (simp add: number_bits_def)
  then have "bits_number (number_bits n) = take_bit 64 n"
    by (simp only: bits_number_def horner_sum_bit_eq_take_bit)
  also have "take_bit 64 n = n" by (rule take_bit_word_eq_self) simp
  finally show ?thesis .
qed

lemma length_number_bits [simp]: "length (number_bits n) = 64"
  by (simp add: number_bits_def)

definition ping_codec :: flexbuffers where
  "ping_codec =
     \<lparr>flex_serialize = (\<lambda>x. case x of
        Ack n \<Rightarrow> Inr (2 # number_bits n)
      | Send m n \<Rightarrow> if m = ping then Inr (1 # number_bits n) else Inl ''unsupported''),
      flex_from_slice = (\<lambda>b. case b of
        [] \<Rightarrow> Inl ''empty''
      | t # bs \<Rightarrow> Inr (if t = 2 then Ack (bits_number bs) else Send ping (bits_number bs)))\<rparr>"

lemma ping_codec_roundtrip: "flex_roundtrip ping_codec"
  by (auto simp: flex_roundtrip_def ping_codec_def split: ReliableNetworkMessage.splits if_splits)

lemma ping_codec_simps [simp]:
  "flex_serialize ping_codec (Ack n) = Inr (2 # number_bits n)"
  "flex_serialize ping_codec (Send ping n) = Inr (1 # number_bits n)"
  "flex_from_slice ping_codec (2 # number_bits n) = Inr (Ack n)"
  "flex_from_slice ping_codec (1 # number_bits n) = Inr (Send ping n)"
  by (simp_all add: ping_codec_def)

definition counting_end :: "bool \<Rightarrow> (nat, nat \<times> nat) NoiseHandler ConnectionActor" where
  "counting_end init = \<lparr>conn_noise =
     \<lparr>handshake_state = None, transport_state = Some (0, 0), noise_initiator = init\<rparr>\<rparr>"

lemma counting_ends_paired: "handlers_paired counting_crates fst snd (conn_noise (counting_end x)) (conn_noise (counting_end y))"
  by (simp add: handlers_paired_def counting_transport counting_end_def)

lemma counting_transport_simps [simp]:
  "length p \<le> 65519 \<Longrightarrow> NoiseHandler_build_transport_message counting_crates
     \<lparr>handshake_state = h, transport_state = Some (i, j), noise_initiator = init\<rparr> p
   = Done (p @ tag i, \<lparr>handshake_state = h, transport_state = Some (Suc i, j), noise_initiator = init\<rparr>)"
  "length p \<le> 65519 \<Longrightarrow> NoiseHandler_read_transport_message counting_crates
     \<lparr>handshake_state = h, transport_state = Some (i, j), noise_initiator = init\<rparr> (p @ tag j)
   = Done (p, \<lparr>handshake_state = h, transport_state = Some (i, Suc j), noise_initiator = init\<rparr>)"
proof -
  assume p: "length p \<le> 65519"
  then show "NoiseHandler_build_transport_message counting_crates
     \<lparr>handshake_state = h, transport_state = Some (i, j), noise_initiator = init\<rparr> p
   = Done (p @ tag i, \<lparr>handshake_state = h, transport_state = Some (Suc i, j), noise_initiator = init\<rparr>)"
    by (simp add: NoiseHandler_build_transport_message_def counting_buffers)
  have "through_buffer (length (p @ tag j)) (transport_read counting_crates (i, j) (p @ tag j)) = Done (p, (i, Suc j))"
    using p by (intro through_buffer_fits) (simp_all add: counting_crates_def NOISE_MAX_MSG_LENGTH_def)
  then show "NoiseHandler_read_transport_message counting_crates
     \<lparr>handshake_state = h, transport_state = Some (i, j), noise_initiator = init\<rparr> (p @ tag j)
   = Done (p, \<lparr>handshake_state = h, transport_state = Some (i, Suc j), noise_initiator = init\<rparr>)"
    by (simp add: NoiseHandler_read_transport_message_def)
qed

lemmas counting_read_Cons [simp] = counting_transport_simps(2) [of "x # p" for x p, simplified]

lemmas run_simps = conn_log_def conn_task_def run_connection_actor_def handle_send_def as_bytes_def
  handle_received_def from_bytes_def emit_def untraced_def counting_end_def conn_chans_def
  taken_def queued_def map_filter_simps subscription_capacity_def rs_actor_def rs_task_def
  rs_eval next_sequence_number_def ConnectionHandle_send_def endpoint_new_def

abbreviation counting_stack :: "endpoint \<Rightarrow> endpoint \<Rightarrow> bool" where
  "counting_stack \<equiv> stack (NoiseHandler_io counting_crates) ping_codec (counting_end True) (counting_end False)"

lemma ping_run_sends:
  "counting_stack
     \<lparr>ep_sender = [FromClient (ClientSend ping 7) all_ok], ep_waits = None,
      ep_conn = [FromHandle (ConnSend (Send ping 1) 0) (Some (Inr ()))], ep_reading = None\<rparr> endpoint_new"
proof -
  let ?w = "Submitting ping 7 0" and ?ev = "FromHandle (ConnSend (Send ping 1) 0) (Some (Inr ()))"
  let ?P = "\<lambda>w evs. \<lparr>ep_sender = [], ep_waits = w, ep_conn = evs, ep_reading = None\<rparr>"
  have "counting_stack (?P (Some ?w) []) endpoint_new"
    using step_left [OF stack_start submit [of endpoint_new 0 _ _ _ _ ping 7]]
    by (simp add: endpoint_new_def conn_chans_def)
  from step_left [OF this serve [of _ ?w _ _ _ _ "Some (Inr ())"]]
  have "counting_stack (?P (Some ?w) [?ev]) endpoint_new" by (simp add: run_simps)
  from step_left [OF this resume [of _ ?w _ _ _ "Inr ()" _ True]]
  show ?thesis by (simp add: run_simps)
qed

text \<open>The end of the receiver, and then of the sender.\<close>

abbreviation ping_frame :: bytes where
  "ping_frame \<equiv> 1 # number_bits 1 @ tag 0"

abbreviation ack_frame :: bytes where
  "ack_frame \<equiv> 2 # number_bits 1 @ tag 0"

definition ping_sender :: endpoint where
  "ping_sender = \<lparr>ep_sender = [FromClient (ClientSend ping 7) all_ok, FromConnection (Ack 1) all_ok], ep_waits = None,
     ep_conn = [FromHandle (ConnSend (Send ping 1) 0) (Some (Inr ())), FromReader (Some (Inr ack_frame)) (Some True)],
     ep_reading = None\<rparr>"

definition ping_receiver :: endpoint where
  "ping_receiver = \<lparr>ep_sender = [FromConnection (Send ping 1) all_ok], ep_waits = None,
     ep_conn = [FromReader (Some (Inr ping_frame)) (Some True), FromHandle (ConnSend (Ack 1) 0) (Some (Inr ()))],
     ep_reading = None\<rparr>"

lemma ping_run_delivers:
  "counting_stack
     \<lparr>ep_sender = [FromClient (ClientSend ping 7) all_ok], ep_waits = None,
      ep_conn = [FromHandle (ConnSend (Send ping 1) 0) (Some (Inr ()))], ep_reading = None\<rparr> ping_receiver"
proof -
  let ?P = "\<lparr>ep_sender = [FromClient (ClientSend ping 7) all_ok], ep_waits = None,
      ep_conn = [FromHandle (ConnSend (Send ping 1) 0) (Some (Inr ()))], ep_reading = None\<rparr>"
  let ?Q = "\<lambda>w evs f. \<lparr>ep_sender = [], ep_waits = w, ep_conn = evs, ep_reading = f\<rparr>"
  let ?read = "FromReader (Some (Inr ping_frame)) (Some True)" and ?w = "Acking ping 1 0"
  have "counting_stack ?P (?Q None [] (Some ping_frame))"
    using step_right [OF ping_run_sends read [of endpoint_new _ _ _ "counting_end False" ping_frame]]
    by (simp add: run_simps)
  from step_right [OF this forward [of _ ping_frame]]
  have "counting_stack ?P (?Q None [?read] None)" by (simp add: run_simps)
  from step_right [OF this take_send [of _ _ _ _ ping 1 "[]" 0]]
  have "counting_stack ?P (?Q (Some ?w) [?read] None)" by (simp add: run_simps)
  from step_right [OF this serve [of _ ?w _ _ _ _ "Some (Inr ())"]]
  have "counting_stack ?P (?Q (Some ?w) [?read, FromHandle (ConnSend (Ack 1) 0) (Some (Inr ()))] None)"
    by (simp add: run_simps)
  from step_right [OF this resume [of _ ?w _ _ _ "Inr ()" _ True]]
  show ?thesis by (simp add: run_simps ping_receiver_def)
qed

lemma ping_run: "counting_stack ping_sender ping_receiver"
proof -
  let ?P = "\<lambda>evs f. \<lparr>ep_sender = [FromClient (ClientSend ping 7) all_ok], ep_waits = None,
      ep_conn = FromHandle (ConnSend (Send ping 1) 0) (Some (Inr ())) # evs, ep_reading = f\<rparr>"
  have "counting_stack (?P [] (Some ack_frame)) ping_receiver"
    using step_left [OF ping_run_delivers read [of _ _ _ _ "\<lparr>conn_noise = \<lparr>handshake_state = None,
      transport_state = Some (1, 0), noise_initiator = True\<rparr>\<rparr>" ack_frame]]
    by (simp add: run_simps ping_receiver_def)
  from step_left [OF this forward [of _ ack_frame]]
  have "counting_stack (?P [FromReader (Some (Inr ack_frame)) (Some True)] None) ping_receiver"
    by (simp add: run_simps)
  from step_left [OF this take_ack [of _ _ _ _ 1 "[]" _ all_ok]]
  show ?thesis by (simp add: run_simps ping_sender_def)
qed

section \<open>Properties\<close>

text \<open>C6. Two ends of a Noise connection, each a reliable sender on a connection actor with its
  waits and its bounded queue, implement the link of two reliable senders: in every reachable
  state their histories, each with the event at hand once its frame has been written, are
  related by \<open>link\<close>.\<close>

theorem stack_refines_link:
  assumes "stack (NoiseHandler_io c) fb a b P Q" and "flex_roundtrip fb"
    and "handlers_paired c sh rh (conn_noise a) (conn_noise b)"
    and "handlers_paired c sh rh (conn_noise b) (conn_noise a)"
  shows "link (ep_view (NoiseHandler_io c) fb a P d) (ep_view (NoiseHandler_io c) fb b Q d')"
  using assms by (rule nh.stack_link)

theorem stack_refines_link_witness:
  "link (ep_view (NoiseHandler_io counting_crates) ping_codec (counting_end True) ping_sender True)
        (ep_view (NoiseHandler_io counting_crates) ping_codec (counting_end False) ping_receiver True)"
  by (rule stack_refines_link [OF ping_run ping_codec_roundtrip counting_ends_paired counting_ends_paired])

text \<open>C2. End to end over the encrypted connection: if \<open>send\<close> returns \<open>Ok\<close> to a caller at one node, the
  reliable sender of the other node has received this caller's message. It has finished with it,
  and handed it to its client unless the client had closed its channel; or it is just about to,
  waiting for room in the client's channel: the acknowledgement goes out before the message is
  handed on.\<close>

theorem stack_ok_means_received:
  assumes "stack (NoiseHandler_io c) fb a b P Q" and "flex_roundtrip fb"
    and "handlers_paired c sh rh (conn_noise a) (conn_noise b)"
    and "handlers_paired c sh rh (conn_noise b) (conn_noise a)"
    and "Suc (length (requests (ep_sender P))) < 2 ^ 64"
    and "ReliableSenderHandle_send True (oneshot_await (rs_log (ep_sender P)) ch) = Done (Inr ())"
  shows "\<exists>m n. (m, ch) \<in> set (requests (ep_sender P))
     \<and> ((\<exists>e. FromConnection (Send m n) e \<in> set (ep_sender Q) \<and> conn_ok e = Some True
            \<and> (client_ok e = Some False \<or> Out (ToClient m) \<in> set (rs_log (ep_sender Q))))
        \<or> (\<exists>ch'. ep_waits Q = Some (Acking m n ch')))"
proof -
  let ?l = "ep_view (NoiseHandler_io c) fb a P True" and ?r = "ep_view (NoiseHandler_io c) fb b Q True"
  from assms(5) have few: "length (requests (ep_sender P)) < 2 ^ 64" by simp
  from few assms(6) obtain n m e1 where ack: "FromConnection (Ack n) e1 \<in> set (ep_sender P)"
    and req: "numbered (requests (ep_sender P)) n (m, ch)" by (rule ok_was_acked)
  have bound: "length (requests ?l) < 2 ^ 64" using ep_view_requests assms(5) le_less_trans by blast
  from ack have "FromConnection (Ack n) e1 \<in> set ?l" by (simp add: ep_view_def)
  with nh.stack_link [OF assms(1-4)] bound obtain m' ch' e where "numbered (requests ?l) n (m', ch')"
    and got: "FromConnection (Send m' n) e \<in> set ?r" "conn_ok e \<noteq> Some False" by (rule link_ack_delivered)
  moreover from req have "numbered (requests ?l) n (m, ch)" by (simp add: ep_view_def numbered_append)
  ultimately have "m' = m" by (auto dest: numbered_unique)
  show ?thesis
  proof (cases "FromConnection (Send m n) e \<in> set (ep_sender Q)")
    case True
    have all: "list_all answered (ep_sender Q)" using stack_inv(2) [OF assms(1)] by (simp add: ep_inv_def)
    then obtain s where run: "rs_run (ep_sender Q) = (rs_log (ep_sender Q), Running s)" by (rule rs_run_answered)
    from all True have "answered (FromConnection (Send m n) e)" unfolding list_all_iff by blast
    with got(2) have ok: "conn_ok e = Some True" "client_ok e \<noteq> None" by auto
    then have "client_ok e = Some False \<or> client_ok e = Some True" by auto
    with rs_hist_delivers [OF run True ok(1)] True ok(1) req show ?thesis by (blast dest: numbered_in)
  next
    case False
    with ep_view_Send [OF got(1)] \<open>m' = m\<close> have "\<exists>ch'. ep_waits Q = Some (Acking m n ch')" by simp
    with req show ?thesis by (blast dest: numbered_in)
  qed
qed

theorem stack_ok_means_received_witness:
  "\<exists>m n. (m, 7) \<in> set (requests (ep_sender ping_sender))
     \<and> ((\<exists>e. FromConnection (Send m n) e \<in> set (ep_sender ping_receiver) \<and> conn_ok e = Some True
            \<and> (client_ok e = Some False \<or> Out (ToClient m) \<in> set (rs_log (ep_sender ping_receiver))))
        \<or> (\<exists>ch'. ep_waits ping_receiver = Some (Acking m n ch')))"
proof (rule stack_ok_means_received [OF ping_run ping_codec_roundtrip counting_ends_paired counting_ends_paired])
  show "Suc (length (requests (ep_sender ping_sender))) < 2 ^ 64" by (simp add: ping_sender_def)
  show "ReliableSenderHandle_send True (oneshot_await (rs_log (ep_sender ping_sender)) 7) = Done (Inr ())"
    by (simp add: ping_sender_def rs_log_def rs_eval next_sequence_number_def ReliableSenderHandle_send_def)
qed

text \<open>C4. In order and once: the messages a node hands to its client are a subsequence of those that
  the client of the other node submitted. As long as every acknowledgement could be written and
  the client took every message, they are the first ones submitted, with none missing.\<close>

theorem stack_delivers_in_order:
  assumes "stack (NoiseHandler_io c) fb a b P Q" and "flex_roundtrip fb"
    and "handlers_paired c sh rh (conn_noise a) (conn_noise b)"
  shows "subseq (delivered (ep_sender Q)) (submitted P)
     \<and> ((\<forall>m n e. FromConnection (Send m n) e \<in> set (ep_sender Q) \<longrightarrow> conn_ok e = Some True \<and> client_ok e = Some True) \<longrightarrow>
          prefix (delivered (ep_sender Q)) (submitted P))"
  using delivered_received [of "ep_sender Q"] stack_inv(2) [OF assms(1)] nh.stack_received_in_order [OF assms]
  unfolding ep_inv_def by (metis prefix_imp_subseq subseq_order.trans)

theorem stack_delivers_in_order_witness:
  "prefix (delivered (ep_sender ping_receiver)) (submitted ping_sender)"
  using stack_delivers_in_order [OF ping_run ping_codec_roundtrip counting_ends_paired]
  by (simp add: ping_receiver_def)

text \<open>C21. The two tasks of an end can deadlock. A peer that sends one message more than the queue
  between them holds, while the reliable sender takes a command of its own client, brings the
  node into a state in which the sender waits for the connection to serve its command and the
  connection waits for the sender to make room. No step of this end is possible from there,
  whatever the peer writes.\<close>

theorem endpoint_can_deadlock:
  assumes "flex_roundtrip fb" and "handlers_paired c sh rh (conn_noise a) (conn_noise b)"
    and "snow_writes c budget" and "transport_state (conn_noise a) = Some t" and "budget (Suc subscription_capacity) t"
    and "\<forall>n. \<exists>p. flex_serialize fb (Send m n) = Inr p \<and> length p + 16 \<le> NOISE_MAX_MSG_LENGTH"
  shows "\<exists>P Q. stack (NoiseHandler_io c) fb a b P Q \<and> deadlocked (NoiseHandler_io c) fb b Q
     \<and> (\<forall>fs Q'. \<not> endpoint_step (NoiseHandler_io c) fb b fs Q Q')"
proof -
  let ?can = "\<lambda>k n. snow_transport c sh rh \<and> (\<exists>t. transport_state n = Some t \<and> budget k t)"
  have "\<exists>f s'. build_transport_message (NoiseHandler_io c) s p = Done (f, s') \<and> ?can i s'"
    if "?can (Suc i) s" and "flex_serialize fb (Send m n) = Inr p" for i s n p
  proof -
    from assms(6) that(2) have "length p + 16 \<le> NOISE_MAX_MSG_LENGTH" by (metis sum.inject(2))
    with that(1) handler_writes [OF assms(3)] show ?thesis by fastforce
  qed
  moreover have "?can (Suc subscription_capacity) (conn_noise a)"
    using assms(2,4,5) by (simp add: handlers_paired_def)
  moreover have "\<exists>p. flex_serialize fb (Send m n) = Inr p" for n using assms(6) by blast
  ultimately have "\<exists>P Q. stack (NoiseHandler_io c) fb a b P Q \<and> deadlocked (NoiseHandler_io c) fb b Q"
    using nh.deadlock_reachable [OF assms(2), where can = ?can] assms(1) by blast
  with deadlocked_stuck show ?thesis by blast
qed

theorem endpoint_can_deadlock_witness:
  "\<exists>P Q. counting_stack P Q \<and> deadlocked (NoiseHandler_io counting_crates) ping_codec (counting_end False) Q
     \<and> (\<forall>fs Q'. \<not> endpoint_step (NoiseHandler_io counting_crates) ping_codec (counting_end False) fs Q Q')"
  by (rule endpoint_can_deadlock [where budget = "\<lambda>_ _. True" and m = ping,
        OF ping_codec_roundtrip counting_ends_paired])
    (auto simp: snow_writes_def counting_crates_def counting_end_def NOISE_MAX_MSG_LENGTH_def)

end
