(* ===== verification/UnitTests.thy ===== *)
theory UnitTests
  imports Node
begin

text \<open>
  The unit tests of the repository, run on the model. A test is a computation that returns, or
  panics at the first assertion that fails; its lemma says that it returns. Where a test meets a
  crate (\<open>toml\<close>, \<open>clap\<close>, \<open>flexbuffers\<close>, \<open>snow\<close>) the crate is a parameter of the test, and the lemma
  says what the test needs of it. Where the order in which tasks run is not fixed by the test, the
  order is a parameter too, and the lemma says for which orders the test passes. Objects of the
  crate \<open>mockall\<close> are the environments they stand for.
\<close>

section \<open>Assertions\<close>

fun assert_all :: "bool list \<Rightarrow> unit outcome" where
  "assert_all [] = Done ()"
| "assert_all (b # bs) = (if b then assert_all bs else Panicked)"

lemma assert_all_Done [simp]: "assert_all bs = Done () \<longleftrightarrow> (\<forall>b \<in> set bs. b)"
  by (induction bs) auto

text \<open>\<open>service.ready().await.unwrap()\<close>\<close>

definition ready :: "(string + unit) poll \<Rightarrow> unit outcome" where
  "ready p = (case p of Ready r \<Rightarrow> unwrap_result r | Pending \<Rightarrow> Blocked)"

definition join_lines :: "string list \<Rightarrow> string" where
  "join_lines ls = (case ls of [] \<Rightarrow> '''' | l # ls \<Rightarrow> l @ concat (map (\<lambda>l. CHR 0x0A # l) ls))"

section \<open>\<open>config/mod.rs\<close>\<close>

text \<open>The assertions the tests share: every setting has its default.\<close>

definition default_asserts :: "NetworkConfig \<Rightarrow> PeerConfig \<Rightarrow> bool list" where
  "default_asserts n p =
     [bind_host n = ''localhost'', port n = 6680, length (seeds p) = 0, max_peer_count p = 10,
      max_pending_messages p = 32, max_pending_send_to_all p = 128, heartbeat_interval p = 1000,
      delivery_timeout p = 500]"

definition it_should_load_default_config_correctly :: "unit outcome" where
  "it_should_load_default_config_correctly =
     (let conf = Config_default in assert_all (default_asserts (network conf) (peer conf)))"

type_synonym toml_parser = "string \<Rightarrow> string + (string \<times> toml_value) list"

definition loads_defaults_from :: "toml_parser \<Rightarrow> string \<Rightarrow> unit outcome" where
  "loads_defaults_from toml contents =
     bind_outcome (unwrap (parse_config_from_string toml contents)) (\<lambda>conf.
       assert_all (default_asserts (network conf) (peer conf)))"

definition it_should_load_empty_config_for_empty_string :: "toml_parser \<Rightarrow> unit outcome" where
  "it_should_load_empty_config_for_empty_string toml = loads_defaults_from toml ''''"

definition it_should_return_error_for_bad_toml :: "toml_parser \<Rightarrow> unit outcome" where
  "it_should_return_error_for_bad_toml toml = assert_all [parse_config_from_string toml ''abcd'' = None]"

definition it_should_load_default_for_missing_fields :: "toml_parser \<Rightarrow> unit outcome" where
  "it_should_load_default_for_missing_fields toml =
     loads_defaults_from toml (join_lines ['''', ''    [network]'', ''    bind=\"localhost\"''])"

definition it_should_load_default_for_missing_fields_for_network :: "toml_parser \<Rightarrow> unit outcome" where
  "it_should_load_default_for_missing_fields_for_network toml =
     loads_defaults_from toml (join_lines ['''', ''    [network]''])"

definition it_should_load_default_for_missing_fields_for_peer :: "toml_parser \<Rightarrow> unit outcome" where
  "it_should_load_default_for_missing_fields_for_peer toml =
     loads_defaults_from toml (join_lines ['''', ''    [peer]''])"

definition it_should_load_default_for_missing_fields_in_multiple_sections :: "toml_parser \<Rightarrow> unit outcome" where
  "it_should_load_default_for_missing_fields_in_multiple_sections toml =
     bind_outcome (unwrap (parse_config_from_string toml (join_lines
       ['''', ''    [network]'', ''    bind=\"localhost\"'', ''    [peer]'', ''    max_peer_count = 100'',
        ''    seeds = [\"1.2.3.4:8080\"]'']))) (\<lambda>conf.
       let p = peer conf in
       assert_all [bind_host (network conf) = ''localhost'', seeds p = [''1.2.3.4:8080''],
         max_peer_count p = 100, max_pending_messages p = 32, max_pending_send_to_all p = 128,
         heartbeat_interval p = 1000, delivery_timeout p = 500])"

text \<open>The tests that read a file: \<open>config.toml\<close> is the file of the repository.\<close>

definition it_should_load_config_without_errors ::
  "(string \<Rightarrow> 'e + 'f) \<Rightarrow> ('f \<Rightarrow> 'e + string) \<Rightarrow> toml_parser \<Rightarrow> unit outcome" where
  "it_should_load_config_without_errors open_file read_to_string toml =
     bind_outcome (unwrap (load_config_from_file open_file read_to_string toml ''config.toml'')) (\<lambda>conf.
       assert_all (default_asserts (network conf) (peer conf) @ [length (key (noise conf)) \<noteq> 0]))"

definition it_should_load_default_config_when_file_not_found ::
  "(string \<Rightarrow> 'e + 'f) \<Rightarrow> ('f \<Rightarrow> 'e + string) \<Rightarrow> toml_parser \<Rightarrow> unit outcome" where
  "it_should_load_default_config_when_file_not_found open_file read_to_string toml =
     bind_outcome (unwrap (load_config_from_file open_file read_to_string toml ''no_such_file.toml'')) (\<lambda>conf.
       assert_all (default_asserts (network conf) (peer conf)))"

definition it_should_get_bind_address_from_config ::
  "(string \<Rightarrow> 'e + 'f) \<Rightarrow> ('f \<Rightarrow> 'e + string) \<Rightarrow> toml_parser \<Rightarrow> unit outcome" where
  "it_should_get_bind_address_from_config open_file read_to_string toml =
     bind_outcome (unwrap (load_config_from_file open_file read_to_string toml ''config.toml'')) (\<lambda>conf.
       assert_all [get_bind_address (network conf) = ''localhost:6680''])"

text \<open>The tables behind the texts of the tests. \<open>reads_test_files\<close> says that the parser finds them:
  that is the grammar of TOML, not the code of the repository.\<close>

definition config_toml :: "string \<Rightarrow> (string \<times> toml_value) list" where
  "config_toml k =
     [(''network'', TTable [(''bind'', TString ''localhost''), (''port'', TInteger 6680)]),
      (''peer'', TTable [(''seeds'', TArray []), (''max_peer_count'', TInteger 10),
         (''max_pending_messages'', TInteger 32), (''max_pending_send_to_all'', TInteger 128),
         (''heartbeat_interval'', TInteger 1000)]),
      (''noise'', TTable [(''key'', TString k)])]"

definition reads_test_files :: "toml_parser \<Rightarrow> bool" where
  "reads_test_files toml \<longleftrightarrow>
     toml '''' = Inr [] \<and> \<not> is_ok (toml ''abcd'')
     \<and> toml (join_lines ['''', ''    [network]'', ''    bind=\"localhost\"''])
         = Inr [(''network'', TTable [(''bind'', TString ''localhost'')])]
     \<and> toml (join_lines ['''', ''    [network]'']) = Inr [(''network'', TTable [])]
     \<and> toml (join_lines ['''', ''    [peer]'']) = Inr [(''peer'', TTable [])]
     \<and> toml (join_lines ['''', ''    [network]'', ''    bind=\"localhost\"'', ''    [peer]'',
           ''    max_peer_count = 100'', ''    seeds = [\"1.2.3.4:8080\"]''])
         = Inr [(''network'', TTable [(''bind'', TString ''localhost'')]),
                (''peer'', TTable [(''max_peer_count'', TInteger 100),
                   (''seeds'', TArray [TString ''1.2.3.4:8080''])])]"

lemmas config_test_defs = parse_config_from_string_def toml_from_str_def de_Config_def de_NetworkConfig_def
  de_PeerConfig_def de_NoiseConfig_def de_struct_def de_field_def de_required_def defaults default_asserts_def

lemma config_tests_pass:
  assumes "reads_test_files toml"
  shows "it_should_load_default_config_correctly = Done ()"
    and "it_should_load_empty_config_for_empty_string toml = Done ()"
    and "it_should_return_error_for_bad_toml toml = Done ()"
    and "it_should_load_default_for_missing_fields toml = Done ()"
    and "it_should_load_default_for_missing_fields_for_network toml = Done ()"
    and "it_should_load_default_for_missing_fields_for_peer toml = Done ()"
    and "it_should_load_default_for_missing_fields_in_multiple_sections toml = Done ()"
proof -
  show "it_should_load_default_config_correctly = Done ()"
    by (simp add: it_should_load_default_config_correctly_def Config_default_def config_test_defs)
  show "it_should_load_empty_config_for_empty_string toml = Done ()"
    using assms by (simp add: reads_test_files_def it_should_load_empty_config_for_empty_string_def
        loads_defaults_from_def config_test_defs)
  show "it_should_return_error_for_bad_toml toml = Done ()"
    using assms by (cases "toml ''abcd''")
      (simp_all add: reads_test_files_def it_should_return_error_for_bad_toml_def config_test_defs)
  show "it_should_load_default_for_missing_fields toml = Done ()"
    using assms by (simp add: reads_test_files_def it_should_load_default_for_missing_fields_def
        loads_defaults_from_def config_test_defs)
  show "it_should_load_default_for_missing_fields_for_network toml = Done ()"
    using assms by (simp add: reads_test_files_def it_should_load_default_for_missing_fields_for_network_def
        loads_defaults_from_def config_test_defs)
  show "it_should_load_default_for_missing_fields_for_peer toml = Done ()"
    using assms by (simp add: reads_test_files_def it_should_load_default_for_missing_fields_for_peer_def
        loads_defaults_from_def config_test_defs)
  show "it_should_load_default_for_missing_fields_in_multiple_sections toml = Done ()"
    using assms
    by (simp add: reads_test_files_def it_should_load_default_for_missing_fields_in_multiple_sections_def
        config_test_defs)
qed

lemma config_file_tests_pass:
  assumes "open_file ''config.toml'' = Inr f" and "read_to_string f = Inr contents"
    and "toml contents = Inr (config_toml k)" and "k \<noteq> ''''"
    and "open_file ''no_such_file.toml'' = Inl err"
  shows "it_should_load_config_without_errors open_file read_to_string toml = Done ()"
    and "it_should_load_default_config_when_file_not_found open_file read_to_string toml = Done ()"
    and "it_should_get_bind_address_from_config open_file read_to_string toml = Done ()"
proof -
  have load: "load_config_from_file open_file read_to_string toml ''config.toml''
      = Some \<lparr>network = NetworkConfig_default, peer = PeerConfig_default, noise = \<lparr>key = k\<rparr>\<rparr>"
    using assms(1-3)
    by (simp add: load_config_from_file_def read_file_def config_toml_def config_test_defs)
  show "it_should_load_config_without_errors open_file read_to_string toml = Done ()"
    using assms(4) by (simp add: it_should_load_config_without_errors_def load config_test_defs)
  show "it_should_load_default_config_when_file_not_found open_file read_to_string toml = Done ()"
    using assms(5) by (simp add: it_should_load_default_config_when_file_not_found_def load_config_from_file_def
        read_file_def Config_default_def config_test_defs)
  show "it_should_get_bind_address_from_config open_file read_to_string toml = Done ()"
    by (simp add: it_should_get_bind_address_from_config_def load get_bind_address_def
        NetworkConfig_default_def decimal_eval)
qed

section \<open>\<open>cli/mod.rs\<close>\<close>

definition it_should_build_struct_for_parsing_cli_options :: "program_crates \<Rightarrow> unit outcome" where
  "it_should_build_struct_for_parsing_cli_options pc =
     bind_outcome (unwrap_result (Cli_parse pc [''node'', ''--config-file=conf.toml''])) (\<lambda>args.
       assert_all [config_file args = ''conf.toml''])"

definition it_should_get_default_values_for_args :: "program_crates \<Rightarrow> unit outcome" where
  "it_should_get_default_values_for_args pc =
     bind_outcome (unwrap_result (Cli_parse pc [''node''])) (\<lambda>args.
       assert_all [config_file args = ''config.toml''])"

lemma cli_tests_pass:
  assumes "clap_config_file pc [''node'', ''--config-file=conf.toml''] = Inr (Some ''conf.toml'')"
    and "clap_config_file pc [''node''] = Inr None"
  shows "it_should_build_struct_for_parsing_cli_options pc = Done ()"
    and "it_should_get_default_values_for_args pc = Done ()"
  using assms by (simp_all add: it_should_build_struct_for_parsing_cli_options_def
      it_should_get_default_values_for_args_def Cli_parse_def)

section \<open>\<open>node/protocol/message_id_generator.rs\<close>\<close>

text \<open>The three clock readings are parameters.\<close>

definition it_generates_ids :: "(string \<Rightarrow> u64) \<Rightarrow> SystemTime \<Rightarrow> SystemTime \<Rightarrow> SystemTime \<Rightarrow> unit outcome" where
  "it_generates_ids hasher t1 t2 t3 =
     (let gen = MessageIdGenerator_new ''some node id'' in
      bind_outcome (next_id hasher t1 gen) (\<lambda>i.
      bind_outcome (assert_all [i \<noteq> MessageId 0]) (\<lambda>_.
      bind_outcome (next_id hasher t2 gen) (\<lambda>j.
      bind_outcome (next_id hasher t3 gen) (\<lambda>k.
      assert_all [j \<noteq> k])))))"

text \<open>The test passes when the clock moves between the last two readings, and fails when it does
  not: nothing but the clock tells the ids of a node apart.\<close>

lemma id_test_passes:
  assumes "0 \<le> t1" "0 \<le> t2" "0 \<le> t3" and "hasher (show_nat (nat t1) @ ''some node id'') \<noteq> 0"
    and "inj_on hasher {show_nat (nat t2) @ ''some node id'', show_nat (nat t3) @ ''some node id''}"
  shows "it_generates_ids hasher t1 t2 t3 = (if t2 \<noteq> t3 then Done () else Panicked)"
proof -
  have "show_nat (nat t2) @ ''some node id'' = show_nat (nat t3) @ ''some node id'' \<longleftrightarrow> t2 = t3"
    using assms(2,3) by (auto simp: show_nat_inject)
  with assms(5) have "hasher (show_nat (nat t2) @ ''some node id'') = hasher (show_nat (nat t3) @ ''some node id'')
      \<longleftrightarrow> t2 = t3"
    by (metis insertCI inj_onD)
  with assms(1-4) show ?thesis
    by (simp add: it_generates_ids_def next_id_def calculate_hash_def MessageIdGenerator_new_def)
qed

section \<open>\<open>node/protocol.rs\<close> and the services\<close>

definition test_state :: State where
  "test_state = State_new MembershipHandle_start (MessageIdGenerator_new ''localhost'')"

definition it_should_create_protocol :: "env \<Rightarrow> unit outcome" where
  "it_should_create_protocol e =
     (let p = Protocol_new ''local'' test_state in
      bind_outcome (ready (Protocol_poll_ready p)) (\<lambda>_.
      bind_outcome (Protocol_call e p (Message_from_Ping PingMessage_default)) (\<lambda>m.
      bind_outcome (unwrap_result m) (\<lambda>m. assert_all [m \<noteq> None]))))"

definition it_should_create_heartbeat_as_service_and_respond_to_heartbeat_with_none :: "SystemTime \<Rightarrow> unit outcome" where
  "it_should_create_heartbeat_as_service_and_respond_to_heartbeat_with_none now =
     bind_outcome (unwrap_result (Heartbeat_call now ''local''
       (Message_from_Heartbeat (HeartbeatMessage_new ''local'' now)))) (\<lambda>res. assert_all [res = None])"

definition it_should_create_heartbeat_as_service_and_respond_to_default_with_heartbeat :: "SystemTime \<Rightarrow> unit outcome" where
  "it_should_create_heartbeat_as_service_and_respond_to_default_with_heartbeat now =
     bind_outcome (unwrap_result (Heartbeat_call now ''local''
       (Message_from_Heartbeat (HeartbeatMessage_default now)))) (\<lambda>res.
       case res of
         Some (UnicastMessage (Heartbeat msg)) \<Rightarrow> assert_all [hb_sender_id msg = ''local'']
       | _ \<Rightarrow> assert_all [False])"

definition it_should_create_heartbeat_as_service_and_respond_to_some_with_none :: "SystemTime \<Rightarrow> unit outcome" where
  "it_should_create_heartbeat_as_service_and_respond_to_some_with_none now =
     bind_outcome (unwrap_result (Heartbeat_call now ''local''
       (UnicastMessage (Heartbeat \<lparr>hb_sender_id = ''local'', hb_time = now\<rparr>)))) (\<lambda>res. assert_all [res = None])"

definition it_should_create_ping_as_service_and_respond_to_none_with_ping :: "unit outcome" where
  "it_should_create_ping_as_service_and_respond_to_none_with_ping =
     bind_outcome (unwrap_result (Ping_call ''local'' (Message_from_Ping PingMessage_default))) (\<lambda>res.
       assert_all [res \<noteq> None, res = Some (Message_from_Ping (PingMessage_new ''local'' ''ping''))])"

definition it_should_create_ping_as_service_and_respond_to_ping_with_pong :: "unit outcome" where
  "it_should_create_ping_as_service_and_respond_to_ping_with_pong =
     bind_outcome (unwrap_result (Ping_call ''local''
       (Message_from_Ping (PingMessage_new ''local'' ''ping'')))) (\<lambda>res.
       assert_all [res \<noteq> None, res = Some (Message_from_Ping (PingMessage_new ''local'' ''pong''))])"

definition it_should_create_ping_as_service_and_respond_to_pong_with_none :: "unit outcome" where
  "it_should_create_ping_as_service_and_respond_to_pong_with_none =
     bind_outcome (unwrap_result (Ping_call ''local''
       (Message_from_Ping (PingMessage_new ''local'' ''pong'')))) (\<lambda>res. assert_all [res = None])"

definition it_should_create_default_ping_message :: "unit outcome" where
  "it_should_create_default_ping_message = assert_all [ping_sender_id PingMessage_default = '''']"

definition it_should_create_handshake_as_service_and_respond_to_default_message_with_handshake :: "unit outcome" where
  "it_should_create_handshake_as_service_and_respond_to_default_message_with_handshake =
     bind_outcome (unwrap_result (Handshake_call ''local'' (Message_from_Handshake HandshakeMessage_default))) (\<lambda>res.
       assert_all [res \<noteq> None, res = Some (UnicastMessage (Handshake
         \<lparr>hs_sender_id = ''local'', hs_message = ''helo'', hs_version = ''0.1.0''\<rparr>))])"

definition it_should_create_handshake_as_service_and_respond_to_helo_with_oleh :: "unit outcome" where
  "it_should_create_handshake_as_service_and_respond_to_helo_with_oleh =
     bind_outcome (unwrap_result (Handshake_call ''local'' (UnicastMessage (Handshake
         \<lparr>hs_sender_id = ''local'', hs_message = ''helo'', hs_version = ''0.1.0''\<rparr>)))) (\<lambda>res.
       assert_all [res \<noteq> None, res = Some (UnicastMessage (Handshake
         \<lparr>hs_sender_id = ''local'', hs_message = ''oleh'', hs_version = ''0.1.0''\<rparr>))])"

definition it_should_create_handshake_as_service_and_respond_to_oleh_with_none :: "unit outcome" where
  "it_should_create_handshake_as_service_and_respond_to_oleh_with_none =
     bind_outcome (unwrap_result (Handshake_call ''local'' (UnicastMessage (Handshake
         \<lparr>hs_sender_id = ''local'', hs_message = ''oleh'', hs_version = ''0.1.0''\<rparr>)))) (\<lambda>res.
       assert_all [res = None])"

definition it_should_create_round_one_package_as_service_and_respond_to_none_with_round_one_package ::
  "env \<Rightarrow> unit outcome" where
  "it_should_create_round_one_package_as_service_and_respond_to_none_with_round_one_package e =
     bind_outcome (RoundOnePackage_call e ''local'' test_state
       (Message_from_RoundOnePackage RoundOnePackageMessage_default)) (\<lambda>r.
     bind_outcome (unwrap_result r) (\<lambda>res.
     bind_outcome (assert_all [res \<noteq> None]) (\<lambda>_.
       case res of
         Some (BroadcastMessage (RoundOnePackage m mid)) \<Rightarrow> assert_all [m = RoundOnePackageMessage_new '''' '''']
       | _ \<Rightarrow> Panicked)))"

definition it_should_create_round_one_package_as_service_and_respond_to_round_one_package_with_none ::
  "env \<Rightarrow> unit outcome" where
  "it_should_create_round_one_package_as_service_and_respond_to_round_one_package_with_none e =
     bind_outcome (RoundOnePackage_call e ''local'' test_state (BroadcastMessage (RoundOnePackage
       (RoundOnePackageMessage_new ''local'' ''round_one_package'') (Some (MessageId 1))))) (\<lambda>r.
     bind_outcome (unwrap_result r) (\<lambda>res. assert_all [res = None]))"

definition it_should_create_default_round_one_package_message :: "unit outcome" where
  "it_should_create_default_round_one_package_message =
     assert_all [r1_sender_id RoundOnePackageMessage_default = '''']"

definition it_should_create_membership_as_service_and_respond_to_default_with_membership ::
  "env \<Rightarrow> handle \<Rightarrow> unit outcome" where
  "it_should_create_membership_as_service_and_respond_to_default_with_membership e h =
     (let (membership, added) = MembershipHandle_add_member MembershipHandle_start 0 ''a'' h in
      bind_outcome added (\<lambda>_.
      bind_outcome (Membership_call e ''local'' (State_new membership (MessageIdGenerator_new ''localhost''))
        (Message_from_Membership \<lparr>ms_sender_id = ''local'', ms_message = None\<rparr>)) (\<lambda>r.
      bind_outcome (unwrap_result r) (\<lambda>res.
        assert_all [res = Some (Message_from_Membership (MembershipMessage_new ''local'' (Some [''a''])))]))))"

definition it_should_create_membership_as_service_and_respond_to_membership_with_none :: "env \<Rightarrow> unit outcome" where
  "it_should_create_membership_as_service_and_respond_to_membership_with_none e =
     bind_outcome (Membership_call e ''local'' test_state
       (Message_from_Membership (MembershipMessage_new ''local'' (Some [''a''])))) (\<lambda>r.
     bind_outcome (unwrap_result r) (\<lambda>res. assert_all [res = None]))"

lemmas membership_test_defs = MembershipHandle_start_def MembershipActor_start_def MembershipHandle_add_member_def
  MembershipHandle_remove_member_def run_membership_actor_def actor_add_member_def actor_remove_member_def

lemma protocol_test_passes: "it_should_create_protocol e = Done ()"
  by (simp add: it_should_create_protocol_def ready_def Protocol_poll_ready_def Protocol_new_def message_defs)

lemma heartbeat_tests_pass:
  "it_should_create_heartbeat_as_service_and_respond_to_heartbeat_with_none now = Done ()"
  "it_should_create_heartbeat_as_service_and_respond_to_default_with_heartbeat now = Done ()"
  "it_should_create_heartbeat_as_service_and_respond_to_some_with_none now = Done ()"
  by (simp_all add: message_defs
      it_should_create_heartbeat_as_service_and_respond_to_heartbeat_with_none_def
      it_should_create_heartbeat_as_service_and_respond_to_default_with_heartbeat_def
      it_should_create_heartbeat_as_service_and_respond_to_some_with_none_def)

lemma ping_tests_pass:
  "it_should_create_ping_as_service_and_respond_to_none_with_ping = Done ()"
  "it_should_create_ping_as_service_and_respond_to_ping_with_pong = Done ()"
  "it_should_create_ping_as_service_and_respond_to_pong_with_none = Done ()"
  "it_should_create_default_ping_message = Done ()"
  by (simp_all add: message_defs
      it_should_create_ping_as_service_and_respond_to_none_with_ping_def
      it_should_create_ping_as_service_and_respond_to_ping_with_pong_def
      it_should_create_ping_as_service_and_respond_to_pong_with_none_def
      it_should_create_default_ping_message_def)

lemma handshake_tests_pass:
  "it_should_create_handshake_as_service_and_respond_to_default_message_with_handshake = Done ()"
  "it_should_create_handshake_as_service_and_respond_to_helo_with_oleh = Done ()"
  "it_should_create_handshake_as_service_and_respond_to_oleh_with_none = Done ()"
  by (simp_all add: message_defs
      it_should_create_handshake_as_service_and_respond_to_default_message_with_handshake_def
      it_should_create_handshake_as_service_and_respond_to_helo_with_oleh_def
      it_should_create_handshake_as_service_and_respond_to_oleh_with_none_def)

lemma round_one_package_tests_pass:
  assumes "0 \<le> env_now e"
  shows "it_should_create_round_one_package_as_service_and_respond_to_none_with_round_one_package e = Done ()"
    and "it_should_create_round_one_package_as_service_and_respond_to_round_one_package_with_none e = Done ()"
    and "it_should_create_default_round_one_package_message = Done ()"
  using assms by (simp_all add: message_defs next_id_def
      it_should_create_round_one_package_as_service_and_respond_to_none_with_round_one_package_def
      it_should_create_round_one_package_as_service_and_respond_to_round_one_package_with_none_def
      it_should_create_default_round_one_package_message_def)

lemma membership_service_tests_pass:
  "it_should_create_membership_as_service_and_respond_to_default_with_membership e h = Done ()"
  "it_should_create_membership_as_service_and_respond_to_membership_with_none e = Done ()"
  by (simp_all add: message_defs membership_test_defs State_new_def hm_keys_def
      it_should_create_membership_as_service_and_respond_to_default_with_membership_def
      it_should_create_membership_as_service_and_respond_to_membership_with_none_def)

section \<open>\<open>node/membership.rs\<close>\<close>

definition it_should_create_membership_add_and_remove_members :: "handle \<Rightarrow> handle \<Rightarrow> unit outcome" where
  "it_should_create_membership_add_and_remove_members h h2 =
     (let (t1, added) = MembershipHandle_add_member MembershipHandle_start 0 ''localhost'' h;
          (t2, added2) = MembershipHandle_add_member t1 1 ''localhost2'' h2;
          (t3, removed) = MembershipHandle_remove_member t2 2 ''localhost'' in
      bind_outcome added (\<lambda>_. bind_outcome added2 (\<lambda>_. bind_outcome removed (\<lambda>r. assert_all [is_ok r]))))"

definition it_should_result_in_error_when_removing_non_member :: "unit outcome" where
  "it_should_result_in_error_when_removing_non_member =
     (let (t, removed) = MembershipHandle_remove_member MembershipHandle_start 0 ''localhost22'' in
      bind_outcome removed (\<lambda>r. assert_all [\<not> is_ok r]))"

definition it_should_return_members_as_empty_vec :: "unit outcome" where
  "it_should_return_members_as_empty_vec =
     bind_outcome (MembershipHandle_get_members MembershipHandle_start 0) (\<lambda>r.
     bind_outcome (unwrap_result r) (\<lambda>m. assert_all [m = []]))"

definition it_should_return_members_as_vec :: "handle \<Rightarrow> unit outcome" where
  "it_should_return_members_as_vec h =
     (let (t, added) = MembershipHandle_add_member MembershipHandle_start 0 ''localhost'' h in
      bind_outcome added (\<lambda>_.
      bind_outcome (MembershipHandle_get_members t 1) (\<lambda>r.
      bind_outcome (unwrap_result r) (\<lambda>m. assert_all [length m = 1]))))"

lemma membership_tests_pass:
  "it_should_create_membership_add_and_remove_members h h2 = Done ()"
  "it_should_result_in_error_when_removing_non_member = Done ()"
  "it_should_return_members_as_empty_vec = Done ()"
  "it_should_return_members_as_vec h = Done ()"
  by (simp_all add: membership_test_defs it_should_create_membership_add_and_remove_members_def
      it_should_result_in_error_when_removing_non_member_def it_should_return_members_as_empty_vec_def
      it_should_return_members_as_vec_def)

end
