(* ===== verification/Spec2Isabelle.thy ===== *)
theory Spec2Isabelle
  imports Node Framing Stack ActorTests
begin

text \<open>
  \<^bold>\<open>Verification of frost-federation.\<close> The program is a node of a federation: it connects to its seeds,
  accepts peers, runs a Noise handshake on each connection, exchanges acknowledged messages with
  each peer, answers them through a set of protocol services, keeps the membership, and offers
  an echo broadcast to all members. Every part is an actor: a \<open>tokio\<close> task that owns its state,
  takes commands from a channel and answers on \<open>oneshot\<close> channels.

  \<^bold>\<open>Parts and theories.\<close> Each theory follows the order of its source file and keeps the source's
  names. Where a name is taken or occurs twice, the type comes first, as in \<open>EchoBroadcastHandle_send\<close>.

  \<^item> \<open>Prelude\<close>: machine types, \<open>Result\<close> as a sum, the outcome of an asynchronous body (it returns,
    panics or waits for ever), traced bodies, and \<open>HashMap\<close> with the locale \<open>hash_map\<close>.
    \<open>Decimal\<close>: the decimal text of a number, and when two such texts with
    something behind them coincide.
  \<^item> \<open>Actors\<close>: effects, tasks and \<open>actor_run\<close>, the loop every actor runs. The locale \<open>oneshot_actor\<close> says
    that a step neither loses nor duplicates a \<open>oneshot\<close> sender; it is interpreted on the actors
    of the membership, the reliable sender, the echo broadcast and the connection.
  \<^item> \<open>Config\<close> (\<open>config/mod.rs\<close>, with the deserialization its \<open>serde\<close> attributes derive), \<open>MessageIds\<close> (\<open>node/protocol/message_id_generator.rs\<close>), \<open>Messages\<close> (the
    types of \<open>node/protocol.rs\<close> and of the files under \<open>node/protocol\<close>).
  \<^item> \<open>Protocols\<close> (\<open>node/protocol.rs\<close>, \<open>node/protocol\<close>, \<open>node/state.rs\<close>): the services and the dispatcher.
    The locale \<open>replying_service\<close> bounds exchanges of replies; all services are instances.
  \<^item> \<open>MembershipActor\<close> (\<open>node/membership.rs\<close>): refines a partial function.
  \<^item> \<open>ReliableSender\<close> (\<open>node/reliable_sender\<close>): numbering, acknowledgements and waiters of one end; its
    handlers may wait for ever for the connection or for room in the client's channel.
    \<open>ReliableLink\<close>: two ends and a network that may delay, reorder, lose and repeat.
  \<^item> \<open>EchoBroadcast\<close> (\<open>node/echo_broadcast\<close>): the echo broadcast actor, its handle and service.
  \<^item> \<open>Noise\<close> (\<open>node/noise_handler.rs\<close>): the handshake and the transport. The locale \<open>noise_channel\<close> is
    the contract of the trait \<open>NoiseIO\<close>, interpreted on \<open>NoiseHandler\<close>.
  \<^item> \<open>Connection\<close> (\<open>node/connection.rs\<close>, and the wire format of \<open>node/reliable_sender/mod.rs\<close>): the
    actor of a connection; its channel lemma is proved in \<open>noise_channel\<close>.
    \<open>Framing\<close> (\<open>build_reader_writer\<close> and the codec set-up of \<open>node.rs\<close>): frames on the bytes of a stream.
  \<^item> \<open>Stack\<close>: a reliable sender on a connection at either end, interleaved at their awaits, with the
    bounded queue between them, and the wait for the client; it refines \<open>ReliableLink\<close>.
  \<^item> \<open>Node\<close> (\<open>node.rs\<close>, \<open>main.rs\<close>, \<open>cli/mod.rs\<close>): the builder, connecting, accepting, the event loop, the
    program from its arguments on. Before each access of a body to the membership, commands of
    other tasks may come in between.
  \<^item> \<open>UnitTests\<close> and \<open>ActorTests\<close>: the tests of the repository, run on the model.
  \<^item> This theory: properties that span components.

  \<^bold>\<open>How the code corresponds to the model.\<close> A struct is a record, an enum a datatype, a \<open>u64\<close> a
  64-bit word. A handler is a function from the state and a command to the effects it performs,
  in order, and its outcome; every \<open>unwrap\<close> is a branch that panics, every \<open>?\<close> and early return a
  branch of the result. A \<open>select!\<close> loop takes its branches as a list of events in any order, so a
  property for all lists holds for every schedule. What a handler awaits from outside is part of
  the event, including that it never answers. A handle's call is the value it returns for what
  became of its channel. The iteration order of a \<open>HashMap\<close> is the order of a list and is left open.

  \<^bold>\<open>What is shown.\<close> The Noise handshake ends after three messages with two handlers that can read
  each other; connections on them deliver messages unchanged and in order. The message of a reliable
  send that returns \<open>Ok\<close> was received and acknowledged by the peer, and handed on unless the peer's
  client is gone or keeps it waiting; a send that has not returned waits for an acknowledgement its
  actor has not seen. The same is shown of the whole stack: messages reach the other node's client in the order in which they were
  submitted, a send that returned \<open>Ok\<close> among them, and the byte stream under a connection keeps
  the frames apart. The waiters of a reliable sender are the requests not yet acknowledged; the
  state of the echo broadcast is well formed in every run. A broadcast
  is answered \<open>Ok\<close> only when every member has been heard from, and then it is, as long as the commands
  around it are served; what becomes of every other caller is shown too. The membership refines
  its specification. Replies between nodes end. It is characterised when two message ids
  coincide. The accept loop, the event loop and the connection to the seeds do what they are meant to
  with peers that follow the protocol, as far as their waits end. The error paths are characterised as
  well: which inputs panic an actor, which waits never end, and what
  that does to other callers. Some of these show that the code does not do what it means to:
  no broadcast of a node can complete, since nothing in the node produces an echo command; a
  connection and its reliable sender can wait for each other for ever; a client that is held up stops
  its reliable sender; and no member is ever removed, since a reliable sender never ends.

  \<^bold>\<open>Parameters and hypotheses.\<close> \<open>snow\<close> and \<open>ed25519_dalek\<close> (\<open>noise_crates\<close>, laws \<open>snow_handshake\<close>,
  \<open>snow_transport\<close> and \<open>snow_writes\<close>), \<open>flexbuffers\<close> (law \<open>flex_roundtrip\<close>), the codec of \<open>tokio_util\<close> (law
  \<open>length_delimited_law\<close>; the loop of \<open>FramedRead\<close> around it is the documented one), \<open>tower\<close> (law \<open>tower_law\<close>), the parser of \<open>toml\<close>, \<open>clap\<close>, the loggers, the file
  system, the clock and the hash function are arguments of the definitions that use them. Each law is
  satisfied by a concrete function, used in the instances that follow the properties.

  \<^bold>\<open>Bounds.\<close> All recursion is over the list of events, members, seeds or connections, so no fuel is
  needed; a wait that never ends is the outcome \<open>Blocked\<close>. The properties that identify a message by
  its sequence number assume fewer than \<open>2^64\<close> requests on a connection, since the number wraps.

  \<^bold>\<open>What is not modelled.\<close> The capacity of \<open>mpsc\<close> channels, except of the queue from a connection to its
  subscriber in \<open>Stack\<close>, and as a send that may not return; the texts that are logged; the code that
  \<open>mockall\<close> generates for the mocks of the tests; the \<open>use\<close> declarations. Time passes only as the choice of
  \<open>tower\<close> to cut a call short.

  \<^bold>\<open>Plan.\<close> Next: a federation of nodes, each with its stacks, exchanging broadcasts.
\<close>

section \<open>From the handshake to delivered messages\<close>

text \<open>C1. From two keys to a channel: two nodes that build their Noise handlers and start a
  connection on a fresh stream, one as initiator and one as responder, complete the handshake
  with three messages if the stream takes them. From then on, in both directions at once and for
  every interleaving of sends and receives, each end hands its reliable sender a prefix of the messages the other end
  was given, unchanged and in order.\<close>

theorem connections_form_a_channel:
  assumes "snow_handshake c stage sh rh" and "snow_transport c sh rh" and "flex_roundtrip fb"
    and "NoiseHandler_new c True pem = Done i" and "NoiseHandler_new c False pem' = Done r"
  shows "\<exists>m1 m2 m3 a b.
     ConnectionHandle_start (NoiseHandler_io c) ([Inr m2], False) takes_all i True
       = ([m1, m3], Done (Running (Serving a), [], False))
     \<and> ConnectionHandle_start (NoiseHandler_io c) ([Inr m1, Inr m3], False) takes_all r False
       = ([m2], Done (Running (Serving b), [], False))
     \<and> (\<forall>evs es t evs' es' t'.
          run_connection_actor (NoiseHandler_io c) fb (Running (Serving a)) evs = (es, t) \<longrightarrow>
          run_connection_actor (NoiseHandler_io c) fb (Running (Serving b)) evs' = (es', t') \<longrightarrow>
            (prefix (frames_read evs') (frames_written es) \<longrightarrow> prefix (forwarded es') (commands evs))
            \<and> (prefix (frames_read evs) (frames_written es') \<longrightarrow> prefix (forwarded es) (commands evs')))"
proof -
  from nh.handshake_runs [OF fresh_handlers_shaking [OF assms(1,2,4,5)], of False]
  obtain m1 m2 m3 i' r' where
    shake: "run_handshake (NoiseHandler_io c) i True ([Inr m2], False) takes_all = ([m1, m3], Done (i', [], False))"
      "run_handshake (NoiseHandler_io c) r False ([Inr m1, Inr m3], False) takes_all = ([m2], Done (r', [], False))"
    and paired: "handlers_paired c sh rh i' r'" "handlers_paired c sh rh r' i'" by blast
  let ?a = "\<lparr>conn_noise = i'\<rparr>" and ?b = "\<lparr>conn_noise = r'\<rparr>"
  have there: "handlers_paired c sh rh (conn_noise ?a) (conn_noise ?b)"
    and backward: "handlers_paired c sh rh (conn_noise ?b) (conn_noise ?a)" using paired by simp_all
  show ?thesis
  proof (rule exI [of _ m1], rule exI [of _ m2], rule exI [of _ m3], rule exI [of _ ?a], rule exI [of _ ?b],
      intro conjI allI impI)
    fix evs es t evs' es' t'
    assume a: "run_connection_actor (NoiseHandler_io c) fb (Running (Serving ?a)) evs = (es, t)"
      and b: "run_connection_actor (NoiseHandler_io c) fb (Running (Serving ?b)) evs' = (es', t')"
    show "prefix (forwarded es') (commands evs)" if "prefix (frames_read evs') (frames_written es)"
      using paired_connections_deliver [OF assms(3) there a b that] by blast
    show "prefix (forwarded es) (commands evs')" if "prefix (frames_read evs) (frames_written es')"
      using paired_connections_deliver [OF assms(3) backward b a that] by blast
  qed (simp_all add: ConnectionHandle_start_def ConnectionActor_start_def shake untraced_def)
qed

text \<open>The events of an end that reads the given frames.\<close>

definition reads :: "bytes list \<Rightarrow> conn_event list" where
  "reads fs = map (\<lambda>f. FromReader (Some (Inr f)) (Some True)) fs"

lemma frames_read_reads [simp]: "frames_read (reads fs) = fs"
  by (induction fs) (simp_all add: reads_def)

theorem connections_form_a_channel_witness:
  "\<exists>i r m1 m2 m3 a b es t es' t'.
     NoiseHandler_new counting_crates True ''key'' = Done i
     \<and> NoiseHandler_new counting_crates False ''key'' = Done r
     \<and> ConnectionHandle_start (NoiseHandler_io counting_crates) ([Inr m2], False) takes_all i True
         = ([m1, m3], Done (Running (Serving a), [], False))
     \<and> ConnectionHandle_start (NoiseHandler_io counting_crates) ([Inr m1, Inr m3], False) takes_all r False
         = ([m2], Done (Running (Serving b), [], False))
     \<and> run_connection_actor (NoiseHandler_io counting_crates) ack_codec (Running (Serving a))
         [FromHandle (ConnSend (Ack 1) 7) (Some (Inr ())), FromHandle (ConnSend (Ack 2) 8) (Some (Inr ()))] = (es, t)
     \<and> run_connection_actor (NoiseHandler_io counting_crates) ack_codec (Running (Serving b))
         (reads (frames_written es)) = (es', t')
     \<and> prefix (forwarded es') [Ack 1, Ack 2]"
proof -
  let ?evs = "[FromHandle (ConnSend (Ack 1) 7) (Some (Inr ())), FromHandle (ConnSend (Ack 2) 8) (Some (Inr ()))]"
  let ?run = "run_connection_actor (NoiseHandler_io counting_crates) ack_codec"
  obtain m1 m2 m3 a b where start:
    "ConnectionHandle_start (NoiseHandler_io counting_crates) ([Inr m2], False) takes_all
       \<lparr>handshake_state = Some 0, transport_state = None, noise_initiator = True\<rparr> True
       = ([m1, m3], Done (Running (Serving a), [], False))"
    "ConnectionHandle_start (NoiseHandler_io counting_crates) ([Inr m1, Inr m3], False) takes_all
       \<lparr>handshake_state = Some 0, transport_state = None, noise_initiator = False\<rparr> False
       = ([m2], Done (Running (Serving b), [], False))"
    and deliver: "\<And>es t es' t'. ?run (Running (Serving a)) ?evs = (es, t) \<Longrightarrow>
       ?run (Running (Serving b)) (reads (frames_written es)) = (es', t') \<Longrightarrow>
       prefix (frames_read (reads (frames_written es))) (frames_written es) \<Longrightarrow>
       prefix (forwarded es') (commands ?evs)"
    using connections_form_a_channel [OF counting_handshake counting_transport ack_codec_roundtrip
        counting_new counting_new] by blast
  obtain es t where a: "?run (Running (Serving a)) ?evs = (es, t)" by force
  obtain es' t' where b: "?run (Running (Serving b)) (reads (frames_written es)) = (es', t')" by force
  from deliver [OF a b] have "prefix (forwarded es') [Ack 1, Ack 2]" by simp
  with start a b counting_new show ?thesis by blast
qed

section \<open>Broadcasts of a node\<close>

text \<open>The commands the echo broadcast actor of a node receives: a call of \<open>send\<close> becomes a \<open>Send\<close> on a
  channel of its own, a call of \<open>receive\<close> an \<open>Echo\<close>.\<close>

definition echo_commands :: "(node_call \<times> chan \<times> net) list \<Rightarrow> echo_event list" where
  "echo_commands calls = List.map_filter (\<lambda>(call, ch, net).
     case call of
       EchoBroadcastTo m peers \<Rightarrow> Some (EchoSend m peers ch, net)
     | EchoReceive m mid \<Rightarrow> map_option (\<lambda>c. (c, net)) (fst (EchoBroadcastHandle_receive True m mid))
     | _ \<Rightarrow> None) calls"

text \<open>C23. No broadcast of a node ever completes successfully: take any of the calls that the node
  makes while it starts, connects and accepts, and in the event loops of its connections, in any
  order and interleaving. However the members answer, no caller of the echo broadcast is
  answered \<open>Ok\<close>. The node hands incoming broadcasts to \<open>send\<close> and never calls \<open>receive\<close>, and only an
  \<open>Echo\<close> command completes a broadcast.\<close>

theorem node_broadcast_never_completes:
  assumes "\<forall>(e, conn) \<in> set conns. tower_law (tower_crate e)"
    and "\<forall>(addr, h, msgs, closed) \<in> set loops. \<forall>(e, state, m) \<in> set msgs. tower_law (tower_crate e)"
    and "\<forall>(call, ch, net) \<in> set calls. call \<in> set (fst (Node_start e n conns))
      \<or> (\<exists>(addr, h, msgs, closed) \<in> set loops. call \<in> set (fst
           (connection_event_loop (get_node_id n) (node_delivery_timeout n) addr h msgs closed)))"
    and "run_echo_broadcast (Running EchoBroadcastActor_start) (echo_commands calls) = (es, t)"
  shows "EchoBroadcastHandle_send True (oneshot_await es ch) \<noteq> Done (Inr ())"
proof (rule no_echo_no_completion [OF _ assms(4)])
  have "call \<noteq> EchoReceive m mid" if "(call, ch, net) \<in> set calls" for call ch net m mid
    using assms(3) that without_start [OF assms(1), of False e n] assms(2) without_event_loop [of _ False]
    by (fastforce simp: without_def)
  then show "\<forall>c \<in> set (echo_commands calls). \<forall>data net. c \<noteq> (Echo data, net)"
    by (fastforce simp: echo_commands_def map_filter_def split: node_call.splits)
qed

theorem node_broadcast_never_completes_witness:
  "EchoBroadcastHandle_send True (oneshot_await (fst (run_echo_broadcast (Running EchoBroadcastActor_start)
     (echo_commands [(EchoBroadcastTo (package_from ''p'' 3) (members MembershipActor_start), 9, \<lambda>_. Some (Inr ()))]))) 9)
   \<noteq> Done (Inr ())"
proof (rule node_broadcast_never_completes [OF _ _ _ prod.collapse [symmetric]])
  let ?e = "sample_env ([], False)" and ?n = sample_node
  let ?loops = "[(''peer'', 1, [(?e, node_state ?n, package_from ''p'' 3)], None)]"
  have law: "tower_law (tower_crate ?e)" by (simp add: sample_env_def patient_tower_law)
  show "\<forall>(e, conn) \<in> set ([] :: ((string, unit, nat, nat \<times> nat) node_env \<times> (string + string)) list).
      tower_law (tower_crate e)" by simp
  show "\<forall>(addr, h, msgs, closed) \<in> set ?loops. \<forall>(e, state, m) \<in> set msgs. tower_law (tower_crate e)"
    using law by simp
  show "\<forall>(call, ch, net) \<in> set [(EchoBroadcastTo (package_from ''p'' 3) (members MembershipActor_start), 9,
        (\<lambda>_. Some (Inr ())) :: net)].
      call \<in> set (fst (Node_start ?e ?n []))
      \<or> (\<exists>(addr, h, msgs, closed) \<in> set ?loops. call \<in> set (fst
           (connection_event_loop (get_node_id ?n) (node_delivery_timeout ?n) addr h msgs closed)))"
    by (simp add: respond_to_broadcast_message_def sample_membership sample_env_def)
qed

section \<open>Members of a node\<close>

text \<open>The commands by which a node changes its membership, each on a channel of its own.\<close>

definition membership_commands :: "(node_call \<times> chan) list \<Rightarrow> MembershipCommand list" where
  "membership_commands calls = List.map_filter (\<lambda>(call, ch).
     case call of
       AddMember addr h \<Rightarrow> Some (Add addr h ch)
     | RemoveMember addr \<Rightarrow> Some (Remove addr ch)
     | _ \<Rightarrow> None) calls"

text \<open>The channel from which an event loop takes its messages is closed when its reliable sender is
  gone: the sender's task owns the other half. \<open>evs\<close> are the events of that task, and \<open>closing\<close> is what the
  event loop meets then.\<close>

definition client_channel :: "rs_event list \<Rightarrow> 'a \<Rightarrow> 'a option" where
  "client_channel evs closing = (case rs_task evs of Crashed \<Rightarrow> Some closing | _ \<Rightarrow> None)"

lemma client_channel_open: "client_channel evs closing = None"
  by (cases rule: rs_run_cases [of evs]) (simp_all add: client_channel_def rs_run)

lemma membership_only_grows:
  "\<forall>c \<in> set cs. \<forall>k ch. c \<noteq> Remove k ch \<Longrightarrow> Add addr h ch \<in> set cs \<Longrightarrow> foldl membership_apply m cs addr \<noteq> None"
proof (induction cs rule: rev_induct)
  case (snoc c cs)
  then show ?case by (cases c) auto
qed simp

text \<open>C25. Nobody ever leaves the membership of a node. Take any of the calls that the node makes while it
  starts, connects and accepts, and in the event loops of its connections, in any order: whoever has
  been added is a member from then on. The clean-up at the end of an event loop is meant to remove a
  peer whose connection is gone. It waits for the reliable sender to drop the channel to its client,
  and the reliable sender never does: it has no way to end, also when the connection is closed and
  it goes round its loop for ever.\<close>

theorem members_never_leave:
  assumes "\<forall>(e, conn) \<in> set conns. tower_law (tower_crate e)"
    and "\<forall>(addr, h, msgs, evs, closing) \<in> set loops. \<forall>(e, state, m) \<in> set msgs. tower_law (tower_crate e)"
    and "\<forall>(call, ch) \<in> set calls. call \<in> set (fst (Node_start e n conns))
      \<or> (\<exists>(addr, h, msgs, evs, closing) \<in> set loops. call \<in> set (fst (connection_event_loop
           (get_node_id n) (node_delivery_timeout n) addr h msgs (client_channel evs closing))))"
    and "membership_handle (node_state n) = Running a" and "(AddMember addr h, ch) \<in> set calls"
  shows "\<exists>es a'. run_membership_actor (membership_handle (node_state n)) (membership_commands calls) = (es, Running a')
     \<and> hm_get (members a') addr \<noteq> None"
proof -
  have "call \<noteq> RemoveMember k" if "(call, ch) \<in> set calls" for call ch k
    using assms(3) that without_start [OF assms(1), of True e n] assms(2) without_event_loop [of _ True]
    by (fastforce simp: without_def client_channel_open)
  then have "\<forall>c \<in> set (membership_commands calls). \<forall>k ch. c \<noteq> Remove k ch"
    by (fastforce simp: membership_commands_def map_filter_def split: node_call.splits)
  moreover have "Add addr h ch \<in> set (membership_commands calls)"
    using assms(5) by (force simp: membership_commands_def map_filter_def)
  ultimately have "foldl membership_apply (hm_get (members a)) (membership_commands calls) addr \<noteq> None"
    by (rule membership_only_grows)
  with run_membership_Running [of a "membership_commands calls"] assms(4) show ?thesis by auto
qed

theorem members_never_leave_witness:
  "\<exists>es a'. run_membership_actor (Running MembershipActor_start)
       (membership_commands [(AddMember ''localhost:6680'' 14, 0)]) = (es, Running a')
     \<and> hm_get (members a') ''localhost:6680'' \<noteq> None"
proof -
  let ?e = "sample_env ([Inr [1], Inr [3]], False)" and ?n = sample_node
  let ?loops = "[(''localhost:6680'', 14, [], [BothClosed, BothClosed], (Running MembershipActor_start, 0))]
    :: (string \<times> handle \<times> ((string, unit, nat, nat \<times> nat) node_env \<times> State \<times> Message) list
        \<times> rs_event list \<times> MembershipActor task \<times> chan) list"
  have seeds: "node_seeds ?n = [''localhost:6680'']"
    by (simp add: sample_node_def Node_static_key_pem_def Node_bind_address_def Node_new_def Let_def)
  obtain tr t where "ConnectionHandle_start (NoiseHandler_io counting_crates) ([Inr [1], Inr [3]], False) takes_all
      \<lparr>handshake_state = Some 0, transport_state = None, noise_initiator = False\<rparr> False
      = (tr, Done (t, [], False))"
    using sample_opened by blast
  then have added: "AddMember ''localhost:6680'' 14 \<in> set (fst (Node_start ?e ?n []))"
    by (simp add: Node_start_def connect_to_seeds_def seeds open_connection_def sample_env_def sample_key counting_new
        retag_def add_to_membership_Running [OF sample_meanwhile [unfolded sample_env_def]] emit_def untraced_def
        trace_bind_eq listen_def)
  show ?thesis
    using members_never_leave [of "[]" ?loops "[(AddMember ''localhost:6680'' 14, 0)]" ?e ?n _ _ _ 0] added
    by (simp add: sample_membership)
qed

end
